theory Spec2Isabelle
  imports Complex_Main "HOL-Library.Sublist"
begin

section \<open>Python values, exceptions and string primitives\<close>

text \<open>
  The crawler is a Python program. Exceptions are values of the type \<open>error\<close>; a call that
  may raise returns \<open>error + 'a\<close>, with \<open>Inl\<close> for the exception. Strings are lists of
  characters with code points below 256. In that range the ASCII digits are the only
  decimal digits, and the only white space beyond ASCII is the next-line character 133 and
  the no-break space 160.
\<close>

datatype error =
    ValueError
  | AttributeError
  | TypeError
  | KeyError
  | IndexError
  | ConnectionError
  | Exception string

text \<open>
  A Python float is a binary64 value: \<open>Finite neg q\<close> is the finite value with sign
  \<open>neg\<close> and magnitude \<open>q\<close> (so that the two zeros differ), \<open>Infinity neg\<close> an
  infinity and \<open>NaN\<close> not-a-number.
\<close>

datatype pyfloat = Finite bool rat | Infinity bool | NaN

datatype pyval = PNone | PStr string | PInt int | PFloat pyfloat

definition is_digit :: "char \<Rightarrow> bool" where
  "is_digit c = (48 \<le> (of_char c :: nat) \<and> (of_char c :: nat) \<le> 57)"

definition digit_val :: "char \<Rightarrow> int" where
  "digit_val c = (of_char c :: int) - 48"

definition digits_val :: "string \<Rightarrow> int" where
  "digits_val ds = foldl (\<lambda>a c. 10 * a + digit_val c) 0 ds"

text \<open>The white space that \<open>float\<close> and \<open>int\<close> remove around a numeral: the ASCII
  characters tab to carriage return and the blank, and the two characters above 127 that
  are white space, which the conversion first turns into blanks. The separators 28 to 31
  are not removed.\<close>

definition is_space :: "char \<Rightarrow> bool" where
  "is_space c =
     (let n = (of_char c :: nat) in (9 \<le> n \<and> n \<le> 13) \<or> n = 32 \<or> n = 133 \<or> n = 160)"

text \<open>ASCII lower case.\<close>

definition lower :: "char \<Rightarrow> char" where
  "lower c =
     (let n = (of_char c :: nat)
      in if 65 \<le> n \<and> n \<le> 90 then ''abcdefghijklmnopqrstuvwxyz'' ! (n - 65) else c)"

text \<open>ASCII letters.\<close>

definition is_alpha :: "char \<Rightarrow> bool" where
  "is_alpha c =
     (let n = (of_char c :: nat) in (65 \<le> n \<and> n \<le> 90) \<or> (97 \<le> n \<and> n \<le> 122))"

text \<open>\<open>s.strip(chars)\<close>: \<open>chars\<close> is a set of characters, removed from both ends.\<close>

definition py_strip :: "string \<Rightarrow> string \<Rightarrow> string" where
  "py_strip chars s =
     rev (dropWhile (\<lambda>c. c \<in> set chars) (rev (dropWhile (\<lambda>c. c \<in> set chars) s)))"

text \<open>The numeral text with that white space removed from both ends.\<close>

definition py_strip_ws :: "string \<Rightarrow> string" where
  "py_strip_ws s = rev (dropWhile is_space (rev (dropWhile is_space s)))"

text \<open>\<open>sub in s\<close> for strings.\<close>

fun py_contains :: "string \<Rightarrow> string \<Rightarrow> bool" where
  "py_contains sub [] = (sub = [])"
| "py_contains sub (c # cs) = (prefix sub (c # cs) \<or> py_contains sub cs)"

text \<open>\<open>s.split(sep)\<close>: the text is cut at the occurrences of \<open>sep\<close>, found from the left and
  not overlapping; an empty separator raises.\<close>

function py_split_from :: "string \<Rightarrow> string \<Rightarrow> string \<Rightarrow> string list" where
  "py_split_from sep cur [] = [cur]"
| "py_split_from sep cur (c # cs) =
     (if sep \<noteq> [] \<and> prefix sep (c # cs)
      then cur # py_split_from sep [] (drop (length sep) (c # cs))
      else py_split_from sep (cur @ [c]) cs)"
  by pat_completeness auto
termination
  by (relation "measure (\<lambda>(sep, cur, s). length s)") (auto simp: neq_Nil_conv)

definition py_split :: "string \<Rightarrow> string \<Rightarrow> error + string list" where
  "py_split sep s = (if sep = [] then Inl ValueError else Inr (py_split_from sep [] s))"

text \<open>\<open>re.search(r"\d+", s)\<close>: the leftmost match, as long as it can be; the result is the
  matched text (\<open>match[0]\<close>) or nothing.\<close>

definition re_search_digits :: "string \<Rightarrow> string option" where
  "re_search_digits s =
     (let r = dropWhile (\<lambda>c. \<not> is_digit c) s
      in if r = [] then None else Some (takeWhile is_digit r))"

text \<open>An optional sign in front of a numeral.\<close>

definition take_sign :: "string \<Rightarrow> bool \<times> string" where
  "take_sign s =
     (case s of
        [] \<Rightarrow> (False, [])
      | c # r \<Rightarrow> if c = CHR ''-'' then (True, r)
                 else if c = CHR ''+'' then (False, r)
                 else (False, s))"

text \<open>Digit-group underscores of numeric text: an underscore is allowed only after a digit
  and only before a digit. The first argument is the previous character.\<close>

fun strip_underscores :: "char \<Rightarrow> string \<Rightarrow> string option" where
  "strip_underscores prev [] = (if prev = CHR ''_'' then None else Some [])"
| "strip_underscores prev (c # cs) =
     (if c = CHR ''_''
      then (if is_digit prev then strip_underscores c cs else None)
      else if prev = CHR ''_'' \<and> \<not> is_digit c then None
      else map_option ((#) c) (strip_underscores c cs))"

definition without_underscores :: "string \<Rightarrow> string option" where
  "without_underscores s =
     (if CHR ''_'' \<notin> set s then Some s else strip_underscores (CHR 0x00) s)"

text \<open>The interpreter's default limit on the number of digits that \<open>int\<close> converts from
  a string.\<close>

definition INT_MAX_STR_DIGITS :: nat where
  "INT_MAX_STR_DIGITS = 4300"

text \<open>\<open>int(s)\<close> for a string, base ten: surrounding white space, one optional sign, digits
  with optional group underscores. Python integers are unbounded, but a numeral of more
  digits than the limit (leading zeros counted, underscores not) raises \<open>ValueError\<close>,
  as text that is no numeral does.\<close>

definition py_int :: "string \<Rightarrow> error + int" where
  "py_int s =
     (let (neg, r) = take_sign (py_strip_ws s)
      in case without_underscores r of
           None \<Rightarrow> Inl ValueError
         | Some ds \<Rightarrow>
             if ds \<noteq> [] \<and> list_all is_digit ds
             then (if INT_MAX_STR_DIGITS < length ds then Inl ValueError
                   else Inr (if neg then - digits_val ds else digits_val ds))
             else Inl ValueError)"

text \<open>\<open>scale b k\<close> is the power \<open>b ^ k\<close> for an integer exponent of either sign.\<close>

definition scale :: "int \<Rightarrow> int \<Rightarrow> rat" where
  "scale b k = (if 0 \<le> k then of_int (b ^ nat k) else 1 / of_int (b ^ nat (- k)))"

text \<open>
  The conversion of a positive fraction \<open>n / d\<close> to binary64, correctly rounded (to
  nearest, ties to even), as the interpreter converts decimal text; it works on the
  integers \<open>n\<close> and \<open>d\<close>. \<open>bit_length n\<close> is the number of binary digits of \<open>n\<close>, and
  \<open>floor_log2 n d\<close> the exponent \<open>e\<close> with \<open>2 ^ e \<le> n / d < 2 ^ (e + 1)\<close>.
  \<open>round_half_even n d\<close> is the integer nearest to \<open>n / d\<close>, the even one of two equally
  near. The value is rounded to a multiple of \<open>2 ^ u\<close>, where \<open>u\<close> leaves 53 significant
  bits and is not below the exponent -1074 of the smallest subnormal; a result of
  \<open>2 ^ 1024\<close> or more is an infinity.
\<close>

fun bit_length :: "int \<Rightarrow> nat" where
  "bit_length n = (if n \<le> 0 then 0 else Suc (bit_length (n div 2)))"

declare bit_length.simps [simp del]

definition floor_log2 :: "int \<Rightarrow> int \<Rightarrow> int" where
  "floor_log2 n d =
     (let k = int (bit_length n) - int (bit_length d)
      in if (if 0 \<le> k then d * 2 ^ nat k \<le> n else d \<le> n * 2 ^ nat (- k)) then k
         else k - 1)"

definition round_half_even :: "int \<Rightarrow> int \<Rightarrow> int" where
  "round_half_even n d =
     (let f = n div d; r = n mod d
      in if 2 * r < d then f else if d < 2 * r then f + 1 else if even f then f else f + 1)"

definition binary64 :: "bool \<Rightarrow> int \<Rightarrow> int \<Rightarrow> pyfloat" where
  "binary64 neg n d =
     (if n = 0 then Finite neg 0
      else let u = max (floor_log2 n d - 52) (- 1074);
               m = (if 0 \<le> u then round_half_even n (d * 2 ^ nat u)
                    else round_half_even (n * 2 ^ nat (- u)) d)
           in if 0 \<le> u \<and> 2 ^ 1024 \<le> m * 2 ^ nat u then Infinity neg
              else Finite neg (of_int m * scale 2 u))"

text \<open>\<open>float(s)\<close> for a string. After white space and group underscores are removed, the
  text is a decimal numeral (digits with an optional point, at least one digit, an optional
  exponent) or, failing that, a spelling of infinity or not-a-number; all of the text has to
  be used. A numeral with the digits \<open>m\<close> and the decimal exponent \<open>x\<close> gives the binary64
  value nearest to \<open>m * 10 ^ x\<close>, with its sign. There is no limit on the number of
  digits.\<close>

definition parse_exponent :: "string \<Rightarrow> int option" where
  "parse_exponent r =
     (case r of
        [] \<Rightarrow> Some 0
      | c # r' \<Rightarrow>
          if c = CHR ''e'' \<or> c = CHR ''E''
          then (let (neg, ds) = take_sign r'
                in if ds \<noteq> [] \<and> list_all is_digit ds
                   then Some (if neg then - digits_val ds else digits_val ds)
                   else None)
          else None)"

definition parse_inf_or_nan :: "string \<Rightarrow> pyfloat option" where
  "parse_inf_or_nan s =
     (let (neg, r) = take_sign s; l = map lower r
      in if l = ''inf'' \<or> l = ''infinity'' then Some (Infinity neg)
         else if l = ''nan'' then Some NaN
         else None)"

definition string_to_double :: "string \<Rightarrow> pyfloat option" where
  "string_to_double s =
     (let (neg, r) = take_sign s;
          ip = takeWhile is_digit r;
          r1 = dropWhile is_digit r;
          (fp, r2) = (case r1 of
                        [] \<Rightarrow> ([], [])
                      | c # t \<Rightarrow> if c = CHR ''.''
                                 then (takeWhile is_digit t, dropWhile is_digit t)
                                 else ([], r1))
      in if ip = [] \<and> fp = [] then parse_inf_or_nan s
         else case parse_exponent r2 of
                None \<Rightarrow> None
              | Some e \<Rightarrow>
                  (let x = e - int (length fp); m = digits_val (ip @ fp)
                   in Some (if 0 \<le> x then binary64 neg (m * 10 ^ nat x) 1
                            else binary64 neg m (10 ^ nat (- x)))))"

definition py_float :: "string \<Rightarrow> error + pyfloat" where
  "py_float s =
     (case without_underscores (py_strip_ws s) of
        None \<Rightarrow> Inl ValueError
      | Some u \<Rightarrow> (case string_to_double u of
                    None \<Rightarrow> Inl ValueError
                  | Some f \<Rightarrow> Inr f))"

text \<open>\<open>str(x)\<close> for a value that is a string or \<open>None\<close>.\<close>

definition py_str :: "string option \<Rightarrow> string" where
  "py_str x = (case x of None \<Rightarrow> ''None'' | Some s \<Rightarrow> s)"

section \<open>The record model: \<open>BusinessProfile\<close>\<close>

text \<open>
  The dataclass has two required string fields and six fields declared
  \<open>Optional[str]\<close> with default \<open>None\<close>. After construction, \<open>__post_init__\<close> runs the three
  cleaners in turn; \<open>reviews\<close> and \<open>rating\<close> change type when they are cleaned.
\<close>

record BusinessProfile =
  profile :: string
  business :: string
  website :: "string option"
  phone_number :: "string option"
  services :: "string option"
  address :: "string option"
  rating :: pyval
  reviews :: pyval

text \<open>\<open>clean_service\<close>: guarded by the truth value of the field (\<open>None\<close> and the empty
  string are false), then \<open>strip("Services: ")\<close>.\<close>

definition clean_service :: "string option \<Rightarrow> error + string option" where
  "clean_service sv =
     (case sv of
        None \<Rightarrow> Inr None
      | Some s \<Rightarrow> if s \<noteq> [] then Inr (Some (py_strip ''Services: '' s)) else Inr (Some s))"

text \<open>\<open>clean_reviews\<close>: under the same guard, the first digit run converted by \<open>int\<close>, or
  \<open>None\<close> without a match.\<close>

definition clean_reviews :: "string option \<Rightarrow> error + pyval" where
  "clean_reviews rv =
     (case rv of
        None \<Rightarrow> Inr PNone
      | Some s \<Rightarrow>
          if s \<noteq> []
          then (case re_search_digits s of
                  None \<Rightarrow> Inr PNone
                | Some m \<Rightarrow> (case py_int m of Inl e \<Rightarrow> Inl e | Inr i \<Rightarrow> Inr (PInt i)))
          else Inr (PStr s))"

text \<open>\<open>clean_rating\<close>: under the same guard, \<open>float\<close> of the text; a \<open>ValueError\<close> is caught
  and gives \<open>None\<close>, any other exception would pass through.\<close>

definition clean_rating :: "string option \<Rightarrow> error + pyval" where
  "clean_rating rt =
     (case rt of
        None \<Rightarrow> Inr PNone
      | Some s \<Rightarrow>
          if s \<noteq> []
          then (case py_float s of
                  Inl e \<Rightarrow> (if e = ValueError then Inr PNone else Inl e)
                | Inr f \<Rightarrow> Inr (PFloat f))
          else Inr (PStr s))"

text \<open>The constructor with \<open>__post_init__\<close>: the arguments are stored and the cleaners run
  in the order services, reviews, rating.\<close>

definition new_BusinessProfile ::
  "string \<Rightarrow> string \<Rightarrow> string option \<Rightarrow> string option \<Rightarrow> string option \<Rightarrow> string option
     \<Rightarrow> string option \<Rightarrow> string option \<Rightarrow> error + BusinessProfile" where
  "new_BusinessProfile p b w ph sv ad rt rv =
     (case clean_service sv of
        Inl e \<Rightarrow> Inl e
      | Inr sv' \<Rightarrow>
          (case clean_reviews rv of
             Inl e \<Rightarrow> Inl e
           | Inr rv' \<Rightarrow>
               (case clean_rating rt of
                  Inl e \<Rightarrow> Inl e
                | Inr rt' \<Rightarrow>
                    Inr \<lparr>profile = p, business = b, website = w, phone_number = ph,
                         services = sv', address = ad, rating = rt', reviews = rv'\<rparr>)))"

section \<open>The persistence sink's view of the services field\<close>

text \<open>
  \<open>Storage.save_to_sql_\<close> turns the stored services value into the list that is written:
  \<open>str(x).split(", ") if ", " in str(x) else []\<close>. The separator is a non-empty literal,
  so the split itself cannot raise.
\<close>

definition services_to_list :: "string option \<Rightarrow> string list" where
  "services_to_list x =
     (if py_contains '', '' (py_str x) then py_split_from '', '' [] (py_str x) else [])"

text \<open>The services list that reaches the table for a raw services text: the record model's
  cleaner first, the sink's conversion second.\<close>

definition stored_services :: "string \<Rightarrow> error + string list" where
  "stored_services raw =
     (case clean_service (Some raw) of
        Inl e \<Rightarrow> Inl e
      | Inr sv \<Rightarrow> Inr (services_to_list sv))"

section \<open>The primary crawler\<close>

definition RESULTS_PER_PAGE :: int where
  "RESULTS_PER_PAGE = 20"

text \<open>\<open>list(range(start, stop, step))\<close> for a positive step.\<close>

function py_range :: "int \<Rightarrow> int \<Rightarrow> int \<Rightarrow> int list" where
  "py_range start stop step =
     (if 0 < step \<and> start < stop then start # py_range (start + step) stop step else [])"
  by pat_completeness auto
termination
  by (relation "measure (\<lambda>(start, stop, step). nat (stop - start))") auto

text \<open>The equation of \<open>py_range\<close> is unfolded by hand where it is needed.\<close>

declare py_range.simps [simp del]

text \<open>\<open>xs.index(x)\<close>: the position of the first element equal to \<open>x\<close>, and a
  \<open>ValueError\<close> when there is none. The comparison is a parameter, since Python compares
  objects by identity first and by value second.\<close>

fun py_index :: "('a \<Rightarrow> 'a \<Rightarrow> bool) \<Rightarrow> 'a list \<Rightarrow> 'a \<Rightarrow> error + nat" where
  "py_index eq [] x = Inl ValueError"
| "py_index eq (y # ys) x =
     (if eq y x then Inr 0
      else case py_index eq ys x of Inl e \<Rightarrow> Inl e | Inr i \<Rightarrow> Inr (Suc i))"

text \<open>The offsets \<open>p_handler\<close> walks through: the range of page offsets below the result
  count and, when a second page was already loaded, the slice starting at the position of
  the offset \<open>2 * RESULTS_PER_PAGE\<close>. This runs before the fetch loop and outside any
  \<open>try\<close>, so an exception here leaves \<open>p_handler\<close>.\<close>

definition pages_available :: "bool \<Rightarrow> int \<Rightarrow> error + int list" where
  "pages_available next_page results_count =
     (let pages = py_range 0 results_count RESULTS_PER_PAGE
      in if next_page
         then (case py_index (=) pages (2 * RESULTS_PER_PAGE) of
                 Inl e \<Rightarrow> Inl e
               | Inr i \<Rightarrow> Inr (drop i pages))
         else Inr pages)"

text \<open>An HTTP response, and a session as what its \<open>get\<close> does with a URL: it raises on a
  transport failure and returns the response otherwise, whatever the status.\<close>

record response =
  status_code :: nat
  resp_text :: string

type_synonym session = "string \<Rightarrow> error + response"

text \<open>\<open>Primary_Stage_Master.fetch_search_pages\<close>: the text of whatever came back.\<close>

definition fetch_search_pages :: "session \<Rightarrow> string \<Rightarrow> error + string" where
  "fetch_search_pages session url =
     (case session url of
        Inl e \<Rightarrow> Inl e
      | Inr response \<Rightarrow> Inr (resp_text response))"

section \<open>The secondary crawler\<close>

definition CALL_RATE :: nat where
  "CALL_RATE = 120"

text \<open>\<open>Secondary_Stage.fetch_businesses\<close>: a status other than 200 raises.\<close>

definition fetch_businesses :: "session \<Rightarrow> string \<Rightarrow> error + (string \<times> string)" where
  "fetch_businesses session url =
     (case session url of
        Inl e \<Rightarrow> Inl e
      | Inr response \<Rightarrow>
          if status_code response \<noteq> 200 then Inl (Exception ''Connection error!'')
          else Inr (resp_text response, url))"

text \<open>
  A profile reference is a Python string object: \<open>create_profiles_array\<close> compares such
  objects both by value (\<open>list.index\<close>) and by identity (\<open>is\<close>), so the object's identity is
  part of the model.
\<close>

datatype str_obj = StrObj (obj_id: nat) (obj_val: string)

definition py_is :: "str_obj \<Rightarrow> str_obj \<Rightarrow> bool" where
  "py_is a b = (obj_id a = obj_id b)"

definition py_eq :: "str_obj \<Rightarrow> str_obj \<Rightarrow> bool" where
  "py_eq a b = (obj_id a = obj_id b \<or> obj_val a = obj_val b)"

text \<open>The loop of \<open>create_profiles_array\<close> over the remaining profiles, with the arrays
  finished so far and the current sub-list. What is left in the sub-list when the loop ends
  is not appended.\<close>

fun split_profiles ::
  "str_obj list \<Rightarrow> str_obj list \<Rightarrow> str_obj list list \<Rightarrow> str_obj list \<Rightarrow> error + str_obj list list" where
  "split_profiles profiles_list [] profiles_arrays sub_list = Inr profiles_arrays"
| "split_profiles profiles_list (p # rest) profiles_arrays sub_list =
     (case py_index py_eq profiles_list p of
        Inl e \<Rightarrow> Inl e
      | Inr i \<Rightarrow>
          if (i + 1) mod CALL_RATE = 0 \<or> py_is p (last profiles_list)
          then split_profiles profiles_list rest (profiles_arrays @ [sub_list @ [p]]) []
          else split_profiles profiles_list rest profiles_arrays (sub_list @ [p]))"

definition create_profiles_array :: "str_obj list \<Rightarrow> error + str_obj list list" where
  "create_profiles_array profiles_list =
     (if length profiles_list \<le> CALL_RATE then Inr [profiles_list]
      else split_profiles profiles_list profiles_list [] [])"

text \<open>
  The HTML parser is a library outside this repository. It enters as a parameter: for a
  markup text and a selector, the text content of the first matching element, or \<open>None\<close>
  when no element matches (\<open>css_first\<close> returns \<open>None\<close> then). Calling \<open>.text()\<close> on
  \<open>None\<close> raises \<open>AttributeError\<close>.
\<close>

type_synonym html_parser = "string \<Rightarrow> string \<Rightarrow> string option"

definition node_text :: "string option \<Rightarrow> error + string" where
  "node_text node = (case node of None \<Rightarrow> Inl AttributeError | Some t \<Rightarrow> Inr t)"

definition bind_err :: "error + 'a \<Rightarrow> ('a \<Rightarrow> error + 'b) \<Rightarrow> error + 'b" where
  "bind_err m f = (case m of Inl e \<Rightarrow> Inl e | Inr v \<Rightarrow> f v)"

text \<open>The selectors of \<open>get_business_data\<close>, in the order the constructor call evaluates
  its arguments.\<close>

definition markers :: "string list" where
  "markers = [''div.rgnuSb.tZPcob'', ''div.Gx8NHe'', ''div.eigqqc'', ''div.AQrsxc'',
              ''div.hgRN0'', ''span.ZjTWef.QoUabe'', ''span.PN9vWe'']"

text \<open>One round of the loop in \<open>get_business_data\<close>: the record built from one response.\<close>

definition business_profile_of :: "html_parser \<Rightarrow> string \<Rightarrow> string \<Rightarrow> error + BusinessProfile" where
  "business_profile_of css source_code prof =
     bind_err (node_text (css source_code ''div.rgnuSb.tZPcob'')) (\<lambda>b.
     bind_err (node_text (css source_code ''div.Gx8NHe'')) (\<lambda>w.
     bind_err (node_text (css source_code ''div.eigqqc'')) (\<lambda>ph.
     bind_err (node_text (css source_code ''div.AQrsxc'')) (\<lambda>sv.
     bind_err (node_text (css source_code ''div.hgRN0'')) (\<lambda>ad.
     bind_err (node_text (css source_code ''span.ZjTWef.QoUabe'')) (\<lambda>rt.
     bind_err (node_text (css source_code ''span.PN9vWe'')) (\<lambda>rv.
       new_BusinessProfile prof b (Some w) (Some ph) (Some sv) (Some ad) (Some rt) (Some rv))))))))"

text \<open>\<open>get_business_data\<close>: each record is appended to the list as soon as it is built; an
  exception stops the loop and keeps what was appended before.\<close>

fun get_business_data ::
  "html_parser \<Rightarrow> (string \<times> string) list \<Rightarrow> BusinessProfile list
     \<Rightarrow> error option \<times> BusinessProfile list" where
  "get_business_data css [] info = (None, info)"
| "get_business_data css ((source_code, prof) # rest) info =
     (case business_profile_of css source_code prof of
        Inl e \<Rightarrow> (Some e, info)
      | Inr b \<Rightarrow> get_business_data css rest (info @ [b]))"

text \<open>\<open>asyncio.gather\<close>: the results in the order of the tasks, or an exception when a
  task raised.\<close>

fun gather :: "(error + 'a) list \<Rightarrow> error + 'a list" where
  "gather [] = Inr []"
| "gather (Inl e # rs) = Inl e"
| "gather (Inr v # rs) = (case gather rs of Inl e \<Rightarrow> Inl e | Inr vs \<Rightarrow> Inr (v # vs))"

text \<open>
  One wave of \<open>s_handler\<close>: the batch is fetched again and again until every fetch of one
  attempt succeeds. The network is a family of sessions indexed by the number of the
  attempt; the result carries the number of the next attempt. The loop has no bound, so
  the function is partial: \<open>None\<close> stands for a wave that is retried for ever.
\<close>

partial_function (option) fetch_wave ::
  "(nat \<Rightarrow> session) \<Rightarrow> nat \<Rightarrow> string list \<Rightarrow> ((string \<times> string) list \<times> nat) option" where
  "fetch_wave net n sub_list =
     (case gather (map (fetch_businesses (net n)) sub_list) of
        Inr responses_list \<Rightarrow> Some (responses_list, Suc n)
      | Inl e \<Rightarrow> fetch_wave net (Suc n) sub_list)"

text \<open>
  \<open>business_info_list\<close> is an attribute of the class \<open>Secondary_Stage\<close>, not of its
  instances: the class body creates one list, no method assigns the attribute on \<open>self\<close>,
  and there is no \<open>__init__\<close>. The class state is threaded through the calls; an instance
  holds its own list only if one were ever assigned, and the lookup
  \<open>self.business_info_list\<close> falls back to the class.
\<close>

record Secondary_Stage_class =
  business_info_list :: "BusinessProfile list"

record Secondary_Stage =
  own_business_info_list :: "BusinessProfile list option"

definition new_Secondary_Stage :: Secondary_Stage where
  "new_Secondary_Stage = \<lparr>own_business_info_list = None\<rparr>"

definition lookup_business_info_list ::
  "Secondary_Stage_class \<Rightarrow> Secondary_Stage \<Rightarrow> BusinessProfile list" where
  "lookup_business_info_list cls self =
     (case own_business_info_list self of None \<Rightarrow> business_info_list cls | Some l \<Rightarrow> l)"

definition store_business_info_list ::
  "Secondary_Stage_class \<Rightarrow> Secondary_Stage \<Rightarrow> BusinessProfile list
     \<Rightarrow> Secondary_Stage_class \<times> Secondary_Stage" where
  "store_business_info_list cls self l =
     (case own_business_info_list self of
        None \<Rightarrow> (cls\<lparr>business_info_list := l\<rparr>, self)
      | Some _ \<Rightarrow> (cls, self\<lparr>own_business_info_list := Some l\<rparr>))"

text \<open>The waves of \<open>s_handler\<close> in sequence. The pauses between waves change no data and
  are left out.\<close>

fun run_waves ::
  "html_parser \<Rightarrow> (nat \<Rightarrow> session) \<Rightarrow> nat \<Rightarrow> str_obj list list
     \<Rightarrow> Secondary_Stage_class \<times> Secondary_Stage
     \<Rightarrow> (error option \<times> (Secondary_Stage_class \<times> Secondary_Stage) \<times> nat) option" where
  "run_waves css net n [] st = Some (None, st, n)"
| "run_waves css net n (profiles_sub_list # rest) (cls, self) =
     (case fetch_wave net n (map obj_val profiles_sub_list) of
        None \<Rightarrow> None
      | Some (responses_list, n') \<Rightarrow>
          (case get_business_data css responses_list (lookup_business_info_list cls self) of
             (Some e, info) \<Rightarrow> Some (Some e, store_business_info_list cls self info, n')
           | (None, info) \<Rightarrow> run_waves css net n' rest (store_business_info_list cls self info)))"

text \<open>\<open>s_handler\<close>: the batches, the waves, and the list the attribute lookup finds at the
  end. The result is \<open>None\<close> when a wave never succeeds.\<close>

definition s_handler ::
  "html_parser \<Rightarrow> (nat \<Rightarrow> session) \<Rightarrow> nat \<Rightarrow> Secondary_Stage_class \<times> Secondary_Stage
     \<Rightarrow> str_obj list
     \<Rightarrow> ((error + BusinessProfile list) \<times> (Secondary_Stage_class \<times> Secondary_Stage) \<times> nat) option" where
  "s_handler css net n st profiles_list =
     (case create_profiles_array profiles_list of
        Inl e \<Rightarrow> Some (Inl e, st, n)
      | Inr profiles_arrays \<Rightarrow>
          (case run_waves css net n profiles_arrays st of
             None \<Rightarrow> None
           | Some (Some e, st', n') \<Rightarrow> Some (Inl e, st', n')
           | Some (None, (cls', self'), n') \<Rightarrow>
               Some (Inr (lookup_business_info_list cls' self'), (cls', self'), n')))"

section \<open>The services cleaning as the specification words it\<close>

text \<open>
  The specification describes services cleaning as removing the literal leading label
  \<open>Services: \<close> when the text starts with it and then splitting at the delimiter, with the
  empty list when the delimiter does not occur. This definition follows those words; it is
  compared with \<open>stored_services\<close>, which follows the code.
\<close>

definition spec_services :: "string \<Rightarrow> string list" where
  "spec_services raw =
     (let s = (if prefix ''Services: '' raw then drop (length ''Services: '') raw else raw)
      in if py_contains '', '' s then py_split_from '', '' [] s else [])"

section \<open>A sample run\<close>

text \<open>
  A parser and a network for running the secondary stage on concrete data: every selector
  finds an element with the text \<open>5\<close>, and every request is answered with status 200 and
  the page \<open>ok\<close>. \<open>sample_record\<close> is the record such a page gives.
\<close>

definition sample_css :: html_parser where
  "sample_css source_code selector = Some ''5''"

definition sample_net :: "nat \<Rightarrow> session" where
  "sample_net n url = Inr \<lparr>status_code = 200, resp_text = ''ok''\<rparr>"

definition sample_record :: "string \<Rightarrow> BusinessProfile" where
  "sample_record url =
     \<lparr>profile = url, business = ''5'', website = Some ''5'', phone_number = Some ''5'',
      services = Some ''5'', address = Some ''5'', rating = PFloat (Finite False 5),
      reviews = PInt 5\<rparr>"

text \<open>
  Profile references for a run of the partitioning: 121 string objects, pairwise different
  in identity, named \<open>p0\<close> to \<open>p120\<close>, except that the object at position 119 carries
  the value \<open>p0\<close> again, as a profile does that is listed on two result pages.
\<close>

text \<open>\<open>str(n)\<close> for a natural number.\<close>

fun str_of_nat :: "nat \<Rightarrow> string" where
  "str_of_nat n =
     (if n < 10 then [''0123456789'' ! n]
      else str_of_nat (n div 10) @ [''0123456789'' ! (n mod 10)])"

declare str_of_nat.simps [simp del]

definition refs_with_duplicate :: "str_obj list" where
  "refs_with_duplicate =
     map (\<lambda>i. StrObj i (''p'' @ str_of_nat i)) [0..<119]
     @ [StrObj 119 ''p0'', StrObj 120 ''p120'']"

section \<open>Batch partitioning as the specification words it\<close>

text \<open>
  The specification describes the partitioning as contiguous batches of at most
  \<open>CALL_RATE\<close> references each, in the original order, the last batch possibly shorter.
  This definition follows those words, for a batch size \<open>n\<close>; it is compared with
  \<open>create_profiles_array\<close>, which follows the code.
\<close>

function spec_batches :: "nat \<Rightarrow> 'a list \<Rightarrow> 'a list list" where
  "spec_batches n xs =
     (if n = 0 \<or> xs = [] then [] else take n xs # spec_batches n (drop n xs))"
  by pat_completeness auto
termination
  by (relation "measure (\<lambda>(n, xs). length xs)") auto

declare spec_batches.simps [simp del]

section \<open>Properties\<close>

subsection \<open>Digit runs and \<open>int\<close>\<close>

lemma is_digit_not_space: "is_digit c \<Longrightarrow> \<not> is_space c"
  by (auto simp: is_digit_def is_space_def Let_def)

lemma is_digit_not_sign: "is_digit c \<Longrightarrow> c \<noteq> CHR ''-'' \<and> c \<noteq> CHR ''+'' \<and> c \<noteq> CHR ''_'' \<and> c \<noteq> CHR ''.''"
  by (auto simp: is_digit_def)

lemma dropWhile_hd_id: "xs \<noteq> [] \<Longrightarrow> \<not> P (hd xs) \<Longrightarrow> dropWhile P xs = xs"
  by (cases xs) auto

lemma py_strip_ws_digits:
  assumes "ds \<noteq> []" "list_all is_digit ds"
  shows "py_strip_ws ds = ds"
proof -
  have h: "\<not> is_space (hd ds)" using assms by (cases ds) (auto simp: is_digit_not_space)
  have l: "\<not> is_space (hd (rev ds))"
    using assms by (simp add: hd_rev list_all_iff is_digit_not_space)
  show ?thesis using assms h l by (simp add: py_strip_ws_def dropWhile_hd_id)
qed

lemma take_sign_digits:
  assumes "ds \<noteq> []" "list_all is_digit ds"
  shows "take_sign ds = (False, ds)"
  using assms by (cases ds) (auto simp: take_sign_def dest: is_digit_not_sign)

lemma without_underscores_digits:
  assumes "list_all is_digit ds"
  shows "without_underscores ds = Some ds"
  using assms by (auto simp: without_underscores_def list_all_iff dest: is_digit_not_sign)

text \<open>\<open>int\<close> reads a digit run of at most 4300 digits as its value and raises on a longer
  one.\<close>

lemma py_int_digits:
  assumes "ds \<noteq> []" "list_all is_digit ds" "length ds \<le> INT_MAX_STR_DIGITS"
  shows "py_int ds = Inr (digits_val ds)"
  using assms
  by (simp add: py_int_def py_strip_ws_digits take_sign_digits without_underscores_digits)

lemma py_int_digits_over_limit:
  assumes "ds \<noteq> []" "list_all is_digit ds" "INT_MAX_STR_DIGITS < length ds"
  shows "py_int ds = Inl ValueError"
  using assms
  by (simp add: py_int_def py_strip_ws_digits take_sign_digits without_underscores_digits)

lemma re_search_digits_run:
  assumes "\<forall>c\<in>set pre. \<not> is_digit c" "run \<noteq> []" "\<forall>c\<in>set run. is_digit c"
    "post = [] \<or> \<not> is_digit (hd post)"
  shows "re_search_digits (pre @ run @ post) = Some run"
proof -
  have d: "dropWhile (\<lambda>c. \<not> is_digit c) (pre @ run @ post) = run @ post"
    using assms(1-3) by (cases run) (auto simp: dropWhile_append2)
  have t: "takeWhile is_digit (run @ post) = run"
    using assms(3,4) by (cases post) (auto simp: takeWhile_append2)
  show ?thesis using assms(2) by (simp add: re_search_digits_def d t)
qed

lemma re_search_digits_none:
  assumes "\<forall>c\<in>set s. \<not> is_digit c"
  shows "re_search_digits s = None"
  using assms by (simp add: re_search_digits_def)

lemma re_search_digits_Some:
  assumes "re_search_digits s = Some m"
  shows "m \<noteq> [] \<and> list_all is_digit m"
proof -
  let ?r = "dropWhile (\<lambda>c. \<not> is_digit c) s"
  from assms have r: "?r \<noteq> []" and m: "m = takeWhile is_digit ?r"
    by (auto simp: re_search_digits_def Let_def split: if_splits)
  from r have "is_digit (hd ?r)" using hd_dropWhile [of "\<lambda>c. \<not> is_digit c" s] by simp
  with r have "m \<noteq> []" unfolding m by (cases ?r) auto
  moreover have "list_all is_digit m" unfolding m list_all_iff by (auto dest: set_takeWhileD)
  ultimately show ?thesis by simp
qed

subsection \<open>Reviews cleaning\<close>

text \<open>
  A text is read as \<open>pre @ run @ post\<close> where \<open>pre\<close> has no digit, \<open>run\<close> is a non-empty
  run of digits and \<open>post\<close> is empty or starts with a non-digit: \<open>run\<close> is then the first
  maximal digit run. When it has at most 4300 digits the cleaned review count is its
  integer value; when it is longer, \<open>int\<close> raises \<open>ValueError\<close> and \<open>clean_reviews\<close>, which
  has no handler, raises with it. A non-empty text without any digit gives \<open>None\<close>.
\<close>

lemma clean_reviews_first_digit_run:
  assumes "\<forall>c\<in>set pre. \<not> is_digit c" "run \<noteq> []" "\<forall>c\<in>set run. is_digit c"
    "post = [] \<or> \<not> is_digit (hd post)" "length run \<le> INT_MAX_STR_DIGITS"
  shows "clean_reviews (Some (pre @ run @ post)) = Inr (PInt (digits_val run))"
proof -
  have m: "re_search_digits (pre @ run @ post) = Some run"
    using assms(1-4) by (rule re_search_digits_run)
  have i: "py_int run = Inr (digits_val run)"
    using assms(2,3,5) by (simp add: py_int_digits list_all_iff)
  show ?thesis using assms(2) by (simp add: clean_reviews_def m i)
qed

lemma clean_reviews_long_digit_run:
  assumes "\<forall>c\<in>set pre. \<not> is_digit c" "run \<noteq> []" "\<forall>c\<in>set run. is_digit c"
    "post = [] \<or> \<not> is_digit (hd post)" "INT_MAX_STR_DIGITS < length run"
  shows "clean_reviews (Some (pre @ run @ post)) = Inl ValueError"
proof -
  have m: "re_search_digits (pre @ run @ post) = Some run"
    using assms(1-4) by (rule re_search_digits_run)
  have i: "py_int run = Inl ValueError"
    using assms(2,3,5) by (simp add: py_int_digits_over_limit list_all_iff)
  show ?thesis using assms(2) by (simp add: clean_reviews_def m i)
qed

lemma clean_reviews_no_digit:
  assumes "t \<noteq> []" "\<forall>c\<in>set t. \<not> is_digit c"
  shows "clean_reviews (Some t) = Inr PNone"
  using assms by (simp add: clean_reviews_def re_search_digits_none)

text \<open>The example of claim C8: the first digit run of \<open>1.2K (345 reviews)\<close> is \<open>1\<close>.\<close>

lemma clean_reviews_example:
  "clean_reviews (Some ''1.2K (345 reviews)'') = Inr (PInt 1)
   \<and> clean_reviews (Some ''no reviews yet'') = Inr PNone"
  using clean_reviews_first_digit_run [of "[]" "''1''" "''.2K (345 reviews)''"]
    clean_reviews_no_digit [of "''no reviews yet''"]
  by (simp add: is_digit_def digits_val_def digit_val_def INT_MAX_STR_DIGITS_def)

text \<open>
  Claim C8: a text with a digit gives the integer value of its first maximal digit run,
  and a text without digits, the empty string included, gives an absent review count.
  The docstring of \<open>clean_reviews\<close> says the same: without a numeric value the field is set
  to \<open>None\<close>. The guard \<open>if self.reviews:\<close> is false for the empty string, so the method
  does nothing and the field keeps the empty string. And a digit run of 4301 digits is not
  converted: \<open>int\<close> raises \<open>ValueError\<close>, which nothing catches.
\<close>

theorem clean_reviews_keeps_empty_string:
  "clean_reviews (Some []) = Inr (PStr []) \<and> clean_reviews (Some []) \<noteq> Inr PNone
   \<and> clean_reviews (Some (replicate 4301 CHR ''9'')) = Inl ValueError"
proof -
  have "clean_reviews (Some ([] @ replicate 4301 CHR ''9'' @ [])) = Inl ValueError"
    by (rule clean_reviews_long_digit_run)
       (simp_all add: is_digit_def INT_MAX_STR_DIGITS_def)
  then show ?thesis by (simp add: clean_reviews_def)
qed

subsection \<open>Services cleaning\<close>

text \<open>The two examples of claim C2 come out as the claim says.\<close>

lemma stored_services_examples:
  "stored_services ''Services: Plumbing, Drain Cleaning'' = Inr [''Plumbing'', ''Drain Cleaning'']
   \<and> stored_services ''Plumbing'' = Inr []"
  by (simp add: stored_services_def clean_service_def py_strip_def services_to_list_def py_str_def)

text \<open>
  Claim C2: services cleaning removes the leading label \<open>Services: \<close> and splits the rest at
  the delimiter. The code calls \<open>strip("Services: ")\<close>, which removes every leading and
  trailing character that occurs in the label, not the label as a prefix. On
  \<open>Services: Plumbing, Repairs\<close> the letters \<open>i\<close>, \<open>r\<close>, \<open>s\<close> at the end belong to the label's
  characters and are removed too: the code stores \<open>Plumbing\<close> and \<open>Repa\<close>, where the cleaning
  the claim describes gives \<open>Plumbing\<close> and \<open>Repairs\<close>.
\<close>

theorem stored_services_strips_trailing_letters:
  "stored_services ''Services: Plumbing, Repairs'' = Inr [''Plumbing'', ''Repa'']
   \<and> spec_services ''Services: Plumbing, Repairs'' = [''Plumbing'', ''Repairs'']"
  by (simp add: stored_services_def clean_service_def py_strip_def services_to_list_def
      py_str_def spec_services_def)

subsection \<open>The offset sequence of the primary crawler\<close>

lemma py_range_bounds: "x \<in> set (py_range start stop step) \<Longrightarrow> start \<le> x \<and> x < stop"
proof (induction start stop step rule: py_range.induct)
  case (1 start stop step)
  show ?case
  proof (cases "0 < step \<and> start < stop")
    case True
    with "1.prems" have "x = start \<or> x \<in> set (py_range (start + step) stop step)"
      by (subst (asm) py_range.simps) simp
    with True "1.IH" show ?thesis by fastforce
  next
    case False
    with "1.prems" show ?thesis by (subst (asm) py_range.simps) simp
  qed
qed

lemma py_index_absent: "x \<notin> set xs \<Longrightarrow> py_index (=) xs x = Inl ValueError"
  by (induction xs) auto

text \<open>The range in closed form: the multiples of the step from the start, below the stop.\<close>

lemma py_range_closed_form:
  "0 < step \<Longrightarrow>
   py_range start stop step =
     map (\<lambda>k. start + int k * step) [0..<nat ((stop - start + step - 1) div step)]"
proof (induction start stop step rule: py_range.induct)
  case (1 start stop step)
  show ?case
  proof (cases "start < stop")
    case True
    let ?n = "nat ((stop - start + step - 1) div step)"
    have pos: "0 < (stop - start + step - 1) div step"
      using True "1.prems" by (simp add: pos_imp_zdiv_pos_iff)
    have eq: "(stop - (start + step) + step - 1) div step = (stop - start + step - 1) div step - 1"
    proof -
      have "stop - start + step - 1 = (stop - (start + step) + step - 1) + 1 * step" by simp
      then have "(stop - start + step - 1) div step = (stop - (start + step) + step - 1) div step + 1"
        using "1.prems" by (metis div_mult_self1 not_less_iff_gr_or_eq add.commute)
      then show ?thesis by simp
    qed
    have n: "?n = Suc (nat ((stop - (start + step) + step - 1) div step))"
      using pos eq by simp
    have "py_range start stop step = start # py_range (start + step) stop step"
      using True "1.prems" by (subst py_range.simps) simp
    also have "\<dots> = start # map (\<lambda>k. start + step + int k * step)
                               [0..<nat ((stop - (start + step) + step - 1) div step)]"
      using "1.IH" True "1.prems" by simp
    also have "\<dots> = map (\<lambda>k. start + int k * step) [0..<?n]"
      unfolding n by (simp only: map_upt_Suc) (simp add: algebra_simps)
    finally show ?thesis .
  next
    case False
    then have "(stop - start + step - 1) div step \<le> 0"
    proof (cases "stop - start + step - 1 < 0")
      case True
      then show ?thesis
        using "1.prems" div_neg_pos_less0 [of "stop - start + step - 1" step] by simp
    next
      case nonneg: False
      with False have "(stop - start + step - 1) div step = 0"
        by (intro div_pos_pos_trivial) auto
      then show ?thesis by simp
    qed
    then show ?thesis using False by (subst py_range.simps) simp
  qed
qed

text \<open>Without a second page the offsets are \<open>0, 20, 40, ...\<close> below the result count, for
  every result count.\<close>

lemma pages_available_first_page:
  "pages_available False results_count =
     Inr (map (\<lambda>k. int k * 20) [0..<nat ((results_count + 19) div 20)])"
  by (simp add: pages_available_def RESULTS_PER_PAGE_def py_range_closed_form add.commute)

text \<open>With a second page and more than 40 results, the first two offsets are dropped.\<close>

lemma pages_available_second_page_drop2:
  assumes "40 < results_count"
  shows "pages_available True results_count =
           Inr (drop 2 (py_range 0 results_count RESULTS_PER_PAGE))"
proof -
  have "py_range 0 results_count 20 = 0 # 20 # 40 # py_range 60 results_count 20"
    using assms by (simp add: py_range.simps [of 0] py_range.simps [of 20] py_range.simps [of 40])
  then show ?thesis
    by (simp add: pages_available_def RESULTS_PER_PAGE_def)
qed

text \<open>The example of claim C4: 47 results.\<close>

lemma pages_available_47:
  "pages_available False 47 = Inr [0, 20, 40] \<and> pages_available True 47 = Inr [40]"
  by (simp add: pages_available_def RESULTS_PER_PAGE_def py_range.simps)

text \<open>
  Claim C4: for every result count the offsets are \<open>0, 20, 40, ...\<close> below the count, and
  with a second page already loaded the first two page-worths are dropped. With 35 results
  there is a second page; the offsets are \<open>0\<close> and \<open>20\<close>, and dropping two page-worths would
  leave the empty sequence. The code looks up the position of the offset 40 instead, which
  is not in the list, and \<open>list.index\<close> raises \<open>ValueError\<close>.
\<close>

theorem pages_available_35_second_page:
  "pages_available False 35 = Inr [0, 20] \<and> pages_available True 35 = Inl ValueError"
  by (simp add: pages_available_def RESULTS_PER_PAGE_def py_range.simps)

text \<open>
  Claim C10: when a second page was loaded and the result count is at most 40, the
  offset step raises \<open>ValueError\<close>: the offset 40 is not among the offsets below the count,
  so the lookup of its position fails. No offsets are returned.
\<close>

theorem pages_available_raises_up_to_40:
  "results_count \<le> 40 \<Longrightarrow> pages_available True results_count = Inl ValueError"
proof -
  assume a: "results_count \<le> 40"
  have "40 \<notin> set (py_range 0 results_count RESULTS_PER_PAGE)"
    using a py_range_bounds by fastforce
  then show ?thesis
    by (simp add: pages_available_def RESULTS_PER_PAGE_def py_index_absent)
qed

theorem pages_available_raises_up_to_40_witness:
  "(40::int) \<le> 40 \<and> pages_available True 40 = Inl ValueError"
  using pages_available_raises_up_to_40 [of 40] by simp

subsection \<open>The two page fetches\<close>

lemma fetch_businesses_raises_on_status:
  "session url = Inr r \<Longrightarrow> status_code r \<noteq> 200 \<Longrightarrow>
   fetch_businesses session url = Inl (Exception ''Connection error!'')"
  by (simp add: fetch_businesses_def)

lemma fetch_search_pages_returns_any_response:
  "session url = Inr r \<Longrightarrow> fetch_search_pages session url = Inr (resp_text r)"
  by (simp add: fetch_search_pages_def)

text \<open>
  Claim C6: both fetch operations raise when the response status is not a success. The
  secondary-stage fetch compares the status with 200 and raises. The primary-stage fetch
  never reads the status: on a response with status 429 it returns the body as if it were
  the search page.
\<close>

theorem fetch_search_pages_ignores_status:
  "fetch_search_pages (\<lambda>url. Inr \<lparr>status_code = 429, resp_text = ''Too Many Requests''\<rparr>)
       ''https://www.google.com/localservices/prolist?q=x&lci=0''
     = Inr ''Too Many Requests''
   \<and> fetch_businesses (\<lambda>url. Inr \<lparr>status_code = 429, resp_text = ''Too Many Requests''\<rparr>)
       ''https://www.google.com/localservices/prolist?q=x&lci=0''
     = Inl (Exception ''Connection error!'')"
  by (simp add: fetch_search_pages_def fetch_businesses_def)

subsection \<open>Totality of the record model\<close>

lemma clean_service_returns: "\<exists>v. clean_service sv = Inr v"
  by (simp add: clean_service_def split: option.splits)

text \<open>The reviews cleaner returns a value or raises \<open>ValueError\<close>, and it raises only when
  the matched digit run is longer than 4300 digits.\<close>

lemma clean_reviews_outcomes:
  "clean_reviews rv = Inr PNone \<or> (\<exists>i. clean_reviews rv = Inr (PInt i))
   \<or> clean_reviews rv = Inr (PStr []) \<or> clean_reviews rv = Inl ValueError"
proof (cases rv)
  case None
  then show ?thesis by (simp add: clean_reviews_def)
next
  case (Some s)
  show ?thesis
  proof (cases "re_search_digits s")
    case None
    with Some show ?thesis by (simp add: clean_reviews_def)
  next
    case m: (Some m)
    then have d: "m \<noteq> [] \<and> list_all is_digit m" by (rule re_search_digits_Some)
    show ?thesis
    proof (cases "length m \<le> INT_MAX_STR_DIGITS")
      case True
      with d have "py_int m = Inr (digits_val m)" by (simp add: py_int_digits)
      with m Some show ?thesis by (simp add: clean_reviews_def)
    next
      case False
      with d have "py_int m = Inl ValueError" by (simp add: py_int_digits_over_limit)
      with m Some show ?thesis by (simp add: clean_reviews_def)
    qed
  qed
qed

lemma clean_reviews_raises_only_on_long_run:
  assumes "clean_reviews rv = Inl e"
  shows "e = ValueError
         \<and> (\<exists>s m. rv = Some s \<and> re_search_digits s = Some m \<and> INT_MAX_STR_DIGITS < length m)"
proof -
  from assms obtain s where rv: "rv = Some s" and ne: "s \<noteq> []"
    by (cases rv) (auto simp: clean_reviews_def split: if_splits)
  from assms rv ne obtain m where m: "re_search_digits s = Some m" and i: "py_int m = Inl e"
    by (auto simp: clean_reviews_def split: option.splits sum.splits)
  from m have d: "m \<noteq> [] \<and> list_all is_digit m" by (rule re_search_digits_Some)
  have long: "INT_MAX_STR_DIGITS < length m"
  proof (rule ccontr)
    assume "\<not> INT_MAX_STR_DIGITS < length m"
    with d have "py_int m = Inr (digits_val m)" by (simp add: py_int_digits)
    with i show False by simp
  qed
  with d have "py_int m = Inl ValueError" by (simp add: py_int_digits_over_limit)
  with i have "e = ValueError" by simp
  with rv m long show ?thesis by blast
qed

text \<open>\<open>float\<close> of a string raises nothing but \<open>ValueError\<close>, which \<open>clean_rating\<close> catches.\<close>

lemma py_float_only_ValueError: "py_float s = Inl e \<Longrightarrow> e = ValueError"
  by (auto simp: py_float_def split: option.splits)

lemma clean_rating_returns:
  "clean_rating rt = Inr PNone \<or> (\<exists>f. clean_rating rt = Inr (PFloat f))
   \<or> clean_rating rt = Inr (PStr [])"
proof (cases rt)
  case None
  then show ?thesis by (simp add: clean_rating_def)
next
  case (Some s)
  show ?thesis
  proof (cases "py_float s")
    case (Inl e)
    then have "e = ValueError" by (rule py_float_only_ValueError)
    with Inl Some show ?thesis by (simp add: clean_rating_def)
  next
    case (Inr f)
    with Some show ?thesis by (simp add: clean_rating_def)
  qed
qed

text \<open>So the constructor returns a record whenever the reviews cleaner returns.\<close>

lemma new_BusinessProfile_returns:
  assumes "clean_reviews rv = Inr rv'"
  shows "\<exists>sv' rt'.
     new_BusinessProfile p b w ph sv ad rt rv =
       Inr \<lparr>profile = p, business = b, website = w, phone_number = ph, services = sv',
            address = ad, rating = rt', reviews = rv'\<rparr>"
proof -
  obtain sv' where s: "clean_service sv = Inr sv'" using clean_service_returns by blast
  obtain rt' where t: "clean_rating rt = Inr rt'" using clean_rating_returns [of rt] by blast
  show ?thesis by (simp add: new_BusinessProfile_def s assms t)
qed

text \<open>
  Claim C9: constructing a record never raises, for any combination of input strings, and
  each cleaner gives a present or an absent outcome only. The rating cleaner catches the
  \<open>ValueError\<close> of \<open>float\<close>; the reviews cleaner calls \<open>int\<close> without a handler, and \<open>int\<close>
  raises \<open>ValueError\<close> on a digit run of more than 4300 digits. So with 4301 digits as the
  reviews text the constructor raises, whatever the other arguments are. And with the empty
  string as rating and reviews text, the guards skip both cleaners and the record holds the
  empty string in both fields, which is neither a number nor \<open>None\<close>.
\<close>

theorem new_BusinessProfile_raises_on_long_digit_run:
  "new_BusinessProfile p b w ph sv ad rt (Some (replicate 4301 CHR ''9'')) = Inl ValueError
   \<and> new_BusinessProfile p b w ph None ad (Some []) (Some []) =
       Inr \<lparr>profile = p, business = b, website = w, phone_number = ph, services = None,
            address = ad, rating = PStr [], reviews = PStr []\<rparr>"
proof -
  obtain sv' where s: "clean_service sv = Inr sv'" using clean_service_returns by blast
  have "clean_reviews (Some ([] @ replicate 4301 CHR ''9'' @ [])) = Inl ValueError"
    by (rule clean_reviews_long_digit_run)
       (simp_all add: is_digit_def INT_MAX_STR_DIGITS_def)
  then have r: "clean_reviews (Some (replicate 4301 CHR ''9'')) = Inl ValueError" by simp
  have 1: "new_BusinessProfile p b w ph sv ad rt (Some (replicate 4301 CHR ''9''))
           = Inl ValueError"
    by (simp add: new_BusinessProfile_def s r)
  have 2: "new_BusinessProfile p b w ph None ad (Some []) (Some []) =
       Inr \<lparr>profile = p, business = b, website = w, phone_number = ph, services = None,
            address = ad, rating = PStr [], reviews = PStr []\<rparr>"
    by (simp add: new_BusinessProfile_def clean_service_def clean_reviews_def clean_rating_def)
  from 1 2 show ?thesis by simp
qed

subsection \<open>The profile extractor\<close>

lemma business_profile_of_None:
  "selector \<in> set markers \<Longrightarrow> css source_code selector = None \<Longrightarrow>
   business_profile_of css source_code prof = Inl AttributeError"
  by (auto simp: markers_def business_profile_of_def bind_err_def node_text_def
      split: option.splits)

text \<open>The exception leaves \<open>get_business_data\<close>, and nothing is appended for the page.\<close>

lemma get_business_data_missing_marker:
  "selector \<in> set markers \<Longrightarrow> css source_code selector = None \<Longrightarrow>
   get_business_data css ((source_code, prof) # rest) info = (Some AttributeError, info)"
  by (simp add: business_profile_of_None)

text \<open>
  Claim C1: a field whose marker has no match in the markup is set to absent, and a
  missing marker never raises. In the code every marker is read as
  \<open>source.css_first(selector).text()\<close>; without a match \<open>css_first\<close> returns \<open>None\<close> and
  the call of \<open>.text()\<close> raises \<open>AttributeError\<close>. So for each of the seven markers, a page
  without a match gives no record but an exception, although the dataclass declares the
  fields optional.
\<close>

theorem business_profile_of_missing_marker:
  "selector \<in> set markers \<Longrightarrow> css source_code selector = None \<Longrightarrow>
   business_profile_of css source_code prof = Inl AttributeError"
  by (rule business_profile_of_None)

text \<open>A page on which only the website marker is missing.\<close>

theorem business_profile_of_missing_marker_witness:
  "''div.Gx8NHe'' \<in> set markers
   \<and> (\<lambda>m s. if s = ''div.Gx8NHe'' then None else Some ''5'') ''<html></html>'' ''div.Gx8NHe''
       = None
   \<and> business_profile_of (\<lambda>m s. if s = ''div.Gx8NHe'' then None else Some ''5'')
        ''<html></html>'' ''profile-1'' = Inl AttributeError"
  using business_profile_of_missing_marker
    [of "''div.Gx8NHe''" "\<lambda>m s. if s = ''div.Gx8NHe'' then None else Some ''5''"
        "''<html></html>''" "''profile-1''"]
  by (simp add: markers_def)

subsection \<open>The record collection of the secondary stage\<close>

text \<open>Appending only extends the list.\<close>

lemma get_business_data_extends:
  "get_business_data css rs info = (e, info') \<Longrightarrow> prefix info info'"
proof (induction rs arbitrary: info)
  case Nil then show ?case by simp
next
  case (Cons r rs)
  obtain source_code prof where r: "r = (source_code, prof)" by (cases r)
  show ?case
  proof (cases "business_profile_of css source_code prof")
    case (Inl a)
    with Cons.prems r show ?thesis by simp
  next
    case (Inr b)
    with Cons.prems r have "get_business_data css rs (info @ [b]) = (e, info')" by simp
    then have "prefix (info @ [b]) info'" by (rule Cons.IH)
    then show ?thesis by (rule append_prefixD)
  qed
qed

lemma run_waves_extends:
  "run_waves css net n arrays (cls, \<lparr>own_business_info_list = None\<rparr>) = Some (e, (cls', self'), n')
   \<Longrightarrow> self' = \<lparr>own_business_info_list = None\<rparr>
       \<and> prefix (business_info_list cls) (business_info_list cls')"
proof (induction arrays arbitrary: cls n)
  case Nil then show ?case by simp
next
  case (Cons a arrays)
  let ?self = "\<lparr>own_business_info_list = None\<rparr>"
  from Cons.prems obtain rs m where w: "fetch_wave net n (map obj_val a) = Some (rs, m)"
    by (auto split: option.splits)
  obtain e1 info where g: "get_business_data css rs (business_info_list cls) = (e1, info)"
    by (cases "get_business_data css rs (business_info_list cls)")
  then have p: "prefix (business_info_list cls) info" by (rule get_business_data_extends)
  show ?case
  proof (cases e1)
    case None
    with Cons.prems w g
    have "run_waves css net m arrays (cls\<lparr>business_info_list := info\<rparr>, ?self)
            = Some (e, (cls', self'), n')"
      by (simp add: lookup_business_info_list_def store_business_info_list_def)
    then have "self' = ?self
        \<and> prefix (business_info_list (cls\<lparr>business_info_list := info\<rparr>)) (business_info_list cls')"
      by (rule Cons.IH)
    with p show ?thesis by (auto intro: prefix_order.trans)
  next
    case (Some a)
    with Cons.prems w g p show ?thesis
      by (auto simp: lookup_business_info_list_def store_business_info_list_def)
  qed
qed

text \<open>Whatever the class-level list holds when \<open>s_handler\<close> is called on a new instance is
  the beginning of the list it returns.\<close>

lemma s_handler_result_extends_class_list:
  assumes "s_handler css net n (cls, new_Secondary_Stage) profiles_list = Some (Inr l, st', n')"
  shows "prefix (business_info_list cls) l"
proof -
  from assms obtain arrays where a: "create_profiles_array profiles_list = Inr arrays"
    by (auto simp: s_handler_def split: sum.splits)
  from assms a obtain cls' self' where
    r: "run_waves css net n arrays (cls, \<lparr>own_business_info_list = None\<rparr>)
          = Some (None, (cls', self'), n')"
    and l: "l = lookup_business_info_list cls' self'"
    by (auto simp: s_handler_def new_Secondary_Stage_def
        split: option.splits sum.splits prod.splits)
  from r have "self' = \<lparr>own_business_info_list = None\<rparr>
      \<and> prefix (business_info_list cls) (business_info_list cls')"
    by (rule run_waves_extends)
  with l show ?thesis by (simp add: lookup_business_info_list_def)
qed

lemma sample_py_float: "py_float ''5'' = Inr (Finite False 5)"
  by code_simp

lemma sample_py_int: "py_int ''5'' = Inr 5"
  by code_simp

lemma sample_business_profile:
  "business_profile_of sample_css source_code url = Inr (sample_record url)"
  by (simp add: business_profile_of_def bind_err_def node_text_def sample_css_def
      new_BusinessProfile_def clean_service_def clean_reviews_def clean_rating_def
      sample_py_float sample_py_int re_search_digits_def is_digit_def py_strip_def
      sample_record_def)

lemma sample_wave: "fetch_wave sample_net n [url] = Some ([(''ok'', url)], Suc n)"
  by (subst fetch_wave.simps) (simp add: fetch_businesses_def sample_net_def)

lemma sample_run:
  "s_handler sample_css sample_net n (\<lparr>business_info_list = old\<rparr>, new_Secondary_Stage)
       [StrObj i url]
   = Some (Inr (old @ [sample_record url]),
           (\<lparr>business_info_list = old @ [sample_record url]\<rparr>, new_Secondary_Stage), Suc n)"
  by (simp add: s_handler_def create_profiles_array_def CALL_RATE_def sample_wave
      sample_business_profile lookup_business_info_list_def store_business_info_list_def
      new_Secondary_Stage_def)

text \<open>
  Claim C3: the list returned by \<open>s_handler\<close> on a fresh instance holds exactly the records
  extracted during that call. Two runs in one process, each on its own new instance and
  each for one profile: the first run starts from the empty class-level list and returns the
  record of profile \<open>a\<close>; the second run, on a new instance and for profile \<open>b\<close> alone,
  returns the record of \<open>a\<close> as well, because both instances append to the one list of
  the class.
\<close>

theorem s_handler_returns_records_of_earlier_instance:
  "s_handler sample_css sample_net 0 (\<lparr>business_info_list = []\<rparr>, new_Secondary_Stage)
       [StrObj 1 ''a'']
     = Some (Inr [sample_record ''a''],
             (\<lparr>business_info_list = [sample_record ''a'']\<rparr>, new_Secondary_Stage), 1)
   \<and> s_handler sample_css sample_net 1
       (\<lparr>business_info_list = [sample_record ''a'']\<rparr>, new_Secondary_Stage) [StrObj 2 ''b'']
     = Some (Inr [sample_record ''a'', sample_record ''b''],
             (\<lparr>business_info_list = [sample_record ''a'', sample_record ''b'']\<rparr>,
              new_Secondary_Stage), 2)"
  using sample_run [of 0 "[]" 1 "''a''"] sample_run [of 1 "[sample_record ''a'']" 2 "''b''"]
  by simp

subsection \<open>Batch partitioning\<close>

text \<open>\<open>list.index\<close> finds an element no later than any position that holds an equal one.\<close>

lemma py_index_in_front:
  "\<exists>y\<in>set front. eq y x \<Longrightarrow> \<exists>i<length front. py_index eq (front @ back) x = Inr i"
proof (induction front)
  case Nil then show ?case by simp
next
  case (Cons y ys)
  show ?case
  proof (cases "eq y x")
    case True then show ?thesis by simp
  next
    case False
    with Cons.prems have "\<exists>y\<in>set ys. eq y x" by auto
    then obtain i where "i < length ys" "py_index eq (ys @ back) x = Inr i"
      using Cons.IH by blast
    with False show ?thesis by auto
  qed
qed

lemma split_profiles_one_array:
  assumes "\<forall>p\<in>set rest. \<exists>i. py_index py_eq all p = Inr i \<and> (i + 1) mod CALL_RATE \<noteq> 0
                                \<and> \<not> py_is p (last all)"
    and "py_index py_eq all q = Inr j" and "py_is q (last all)"
  shows "split_profiles all (rest @ [q]) arrays sub_list = Inr (arrays @ [sub_list @ rest @ [q]])"
  using assms
proof (induction rest arbitrary: sub_list)
  case Nil then show ?case by simp
next
  case (Cons p rest)
  then obtain i where i: "py_index py_eq all p = Inr i" "(i + 1) mod CALL_RATE \<noteq> 0" "\<not> py_is p (last all)"
    by auto
  have "split_profiles all (rest @ [q]) arrays (sub_list @ [p]) = Inr (arrays @ [(sub_list @ [p]) @ rest @ [q]])"
    using Cons.prems by (intro Cons.IH) auto
  with i show ?case by simp
qed

lemma str_of_nat_0: "str_of_nat 0 = ''0''"
  by (subst str_of_nat.simps) simp

text \<open>
  Claim C5: every list of profile references is split into contiguous batches of at most
  \<open>CALL_RATE\<close> references. The loop decides where a batch ends from
  \<open>profiles_list.index(profile)\<close>, the position of the first reference equal to the
  current one, not from the current position. In \<open>refs_with_duplicate\<close> the reference at
  position 119 has the value of the one at position 0, so its index is 0 and the batch is
  not closed after 120 references; the only batch closed is the one at the last reference,
  and it holds all 121.
\<close>

theorem create_profiles_array_duplicate_one_batch:
  "length refs_with_duplicate = 121
   \<and> create_profiles_array refs_with_duplicate = Inr [refs_with_duplicate]"
proof -
  define f where "f = (\<lambda>i. StrObj i (''p'' @ str_of_nat i))"
  define front where "front = map f [0..<119]"
  define d where "d = StrObj 119 ''p0''"
  define q where "q = StrObj 120 ''p120''"
  have all: "refs_with_duplicate = front @ [d, q]"
    by (simp add: refs_with_duplicate_def front_def f_def d_def q_def)
  have lenf: "length front = 119" by (simp add: front_def)
  have len: "length refs_with_duplicate = 121" by (simp add: all lenf)
  have lastq: "last refs_with_duplicate = q" by (simp add: all)
  have ids: "obj_id p < 119" if "p \<in> set front" for p
    using that by (auto simp: front_def f_def)
  have front_index: "\<exists>i<119. py_index py_eq refs_with_duplicate p = Inr i" if "p \<in> set front" for p
  proof -
    have "\<exists>y\<in>set front. py_eq y p" using that by (auto simp: py_eq_def)
    then show ?thesis unfolding all using py_index_in_front [of front py_eq p "[d, q]"] lenf by simp
  qed
  have d_index: "\<exists>i<119. py_index py_eq refs_with_duplicate d = Inr i"
  proof -
    have "f 0 \<in> set front" by (simp add: front_def)
    moreover have "py_eq (f 0) d" by (simp add: py_eq_def f_def d_def str_of_nat_0)
    ultimately have "\<exists>y\<in>set front. py_eq y d" by blast
    then show ?thesis unfolding all using py_index_in_front [of front py_eq d "[d, q]"] lenf by simp
  qed
  have rest: "\<forall>p\<in>set (front @ [d]). \<exists>i. py_index py_eq refs_with_duplicate p = Inr i
                 \<and> (i + 1) mod CALL_RATE \<noteq> 0 \<and> \<not> py_is p (last refs_with_duplicate)"
  proof
    fix p assume "p \<in> set (front @ [d])"
    then consider "p \<in> set front" | "p = d" by auto
    then show "\<exists>i. py_index py_eq refs_with_duplicate p = Inr i
                 \<and> (i + 1) mod CALL_RATE \<noteq> 0 \<and> \<not> py_is p (last refs_with_duplicate)"
    proof cases
      case 1
      then obtain i where "i < 119" "py_index py_eq refs_with_duplicate p = Inr i"
        using front_index by blast
      moreover have "\<not> py_is p q" using ids [OF 1] by (simp add: py_is_def q_def)
      ultimately show ?thesis by (auto simp: CALL_RATE_def lastq)
    next
      case 2
      obtain i where "i < 119" "py_index py_eq refs_with_duplicate d = Inr i"
        using d_index by blast
      moreover have "\<not> py_is d q" by (simp add: py_is_def q_def d_def)
      ultimately show ?thesis by (auto simp: CALL_RATE_def lastq 2)
    qed
  qed
  have "\<exists>y\<in>set refs_with_duplicate. py_eq y q" by (simp add: all py_eq_def)
  then obtain j where j: "py_index py_eq refs_with_duplicate q = Inr j"
    using py_index_in_front [of refs_with_duplicate py_eq q "[]"] by auto
  have "py_is q (last refs_with_duplicate)" by (simp add: lastq py_is_def)
  with rest j
  have "split_profiles refs_with_duplicate ((front @ [d]) @ [q]) [] [] = Inr ([] @ [[] @ (front @ [d]) @ [q]])"
    by (rule split_profiles_one_array)
  then have "split_profiles refs_with_duplicate refs_with_duplicate [] [] = Inr [refs_with_duplicate]"
    by (simp add: all)
  with len show ?thesis by (simp add: create_profiles_array_def CALL_RATE_def)
qed

subsection \<open>The conversion to binary64\<close>

text \<open>\<open>bit_length\<close> counts the binary digits of a positive integer.\<close>

lemma bit_length_bounds:
  "0 < n \<Longrightarrow> 2 ^ (bit_length n - 1) \<le> n \<and> n < 2 ^ bit_length n"
proof (induction n rule: bit_length.induct)
  case (1 n)
  show ?case
  proof (cases "n = 1")
    case True
    then show ?thesis by (simp add: bit_length.simps [of 1] bit_length.simps [of 0])
  next
    case False
    with "1.prems" have h: "0 < n div 2" by simp
    with 1 have IH: "2 ^ (bit_length (n div 2) - 1) \<le> n div 2 \<and> n div 2 < 2 ^ bit_length (n div 2)"
      by simp
    have pos: "0 < bit_length (n div 2)" using h by (subst bit_length.simps) simp
    have bl: "bit_length n = Suc (bit_length (n div 2))"
      using "1.prems" by (subst bit_length.simps) simp
    have "2 ^ (bit_length n - 1) = (2::int) * 2 ^ (bit_length (n div 2) - 1)"
      using pos bl by (cases "bit_length (n div 2)") simp_all
    also have "\<dots> \<le> 2 * (n div 2)" using IH by simp
    also have "\<dots> \<le> n" by simp
    finally have lo: "2 ^ (bit_length n - 1) \<le> n" .
    have "n < 2 * (n div 2) + 2" by simp
    also have "\<dots> \<le> 2 * 2 ^ bit_length (n div 2)" using IH by simp
    finally have "n < 2 ^ bit_length n" using bl by simp
    with lo show ?thesis by simp
  qed
qed

text \<open>\<open>round_half_even n d\<close> is an integer nearest to the fraction.\<close>

lemma round_half_even_nearest:
  assumes "0 < d"
  shows "\<bar>of_int (round_half_even n d) - (of_int n :: rat) / of_int d\<bar> \<le> 1 / 2"
proof -
  define f where "f = n div d"
  define r where "r = n mod d"
  have n: "n = d * f + r" by (simp add: f_def r_def)
  have r0: "0 \<le> r" "r < d" using assms by (simp_all add: r_def)
  have q: "(of_int n :: rat) / of_int d = of_int f + of_int r / of_int d"
    using assms by (simp add: n field_simps)
  have frac: "0 \<le> (of_int r :: rat) / of_int d" "(of_int r :: rat) / of_int d < 1"
    using r0 assms by simp_all
  consider "2 * r < d" | "d < 2 * r" | "2 * r = d" by linarith
  then show ?thesis
  proof cases
    case 1
    then have "(of_int r :: rat) / of_int d < 1 / 2"
      using assms by (simp add: field_simps)
    with 1 frac show ?thesis by (simp add: round_half_even_def f_def [symmetric] r_def [symmetric] q)
  next
    case 2
    then have "1 / 2 < (of_int r :: rat) / of_int d"
      using assms by (simp add: field_simps)
    with 2 frac show ?thesis
      by (simp add: round_half_even_def f_def [symmetric] r_def [symmetric] q)
  next
    case 3
    have d2: "(of_int d :: rat) = 2 * of_int r" using 3 by (metis of_int_mult of_int_numeral)
    have "r \<noteq> 0" using 3 assms by auto
    then have x: "(of_int r :: rat) / of_int d = 1 / 2" by (simp add: d2)
    have "round_half_even n d = f \<or> round_half_even n d = f + 1"
      by (simp add: round_half_even_def f_def r_def Let_def)
    then show ?thesis by (auto simp: q x)
  qed
qed

text \<open>\<open>scale\<close> is the power with an integer exponent, and \<open>floor_log2\<close> the binary
  exponent of the fraction.\<close>

lemma scale_powi: "b \<noteq> 0 \<Longrightarrow> scale b k = of_int b powi k"
  by (cases "0 \<le> k") (simp_all add: scale_def power_int_def field_simps)

lemma floor_log2_bounds:
  assumes "0 < n" "0 < d"
  shows "2 powi floor_log2 n d \<le> (of_int n :: rat) / of_int d
         \<and> (of_int n :: rat) / of_int d < 2 powi (floor_log2 n d + 1)"
proof -
  define N :: rat where "N = of_int n"
  define D :: rat where "D = of_int d"
  define bn where "bn = int (bit_length n)"
  define bd where "bd = int (bit_length d)"
  define k where "k = bn - bd"
  have D0: "0 < D" using assms by (simp add: D_def)
  have two: "(2::rat) \<noteq> 0" by simp
  have p: "(2::rat) powi (int m) = of_int (2 ^ m)" for m by simp
  have bn1: "0 < bit_length n" using assms(1) by (subst bit_length.simps) simp
  have bd1: "0 < bit_length d" using assms(2) by (subst bit_length.simps) simp
  have pm: "(2::rat) powi (int m - 1) = of_int (2 ^ (m - 1))" if "0 < m" for m
    using that by (cases m) simp_all
  have nlo: "2 powi (bn - 1) \<le> N" and nhi: "N < 2 powi bn"
    using bit_length_bounds [OF assms(1)] bn1
    unfolding bn_def N_def pm [OF bn1] p
    by (simp_all only: of_int_le_iff of_int_less_iff)
  have dlo: "2 powi (bd - 1) \<le> D" and dhi: "D < 2 powi bd"
    using bit_length_bounds [OF assms(2)] bd1
    unfolding bd_def D_def pm [OF bd1] p
    by (simp_all only: of_int_le_iff of_int_less_iff)
  have chk: "(if 0 \<le> k then d * 2 ^ nat k \<le> n else d \<le> n * 2 ^ nat (- k)) \<longleftrightarrow> 2 powi k * D \<le> N"
  proof (cases "0 \<le> k")
    case True
    then have "(2::rat) powi k = of_int (2 ^ nat k)" by (simp add: power_int_def)
    then have "2 powi k * D \<le> N \<longleftrightarrow> (of_int (d * 2 ^ nat k) :: rat) \<le> of_int n"
      by (simp add: D_def N_def mult.commute)
    then show ?thesis using True by (simp only: of_int_le_iff if_True)
  next
    case False
    define P :: rat where "P = 2 ^ nat (- k)"
    have P0: "0 < P" by (simp add: P_def)
    have pk: "(2::rat) powi k = 1 / P" using False by (simp add: power_int_def P_def field_simps)
    have "2 powi k * D \<le> N \<longleftrightarrow> D \<le> N * P" using P0 by (simp add: pk field_simps)
    then have "2 powi k * D \<le> N \<longleftrightarrow> (of_int d :: rat) \<le> of_int (n * 2 ^ nat (- k))"
      by (simp add: D_def N_def P_def)
    then show ?thesis using False by (simp only: of_int_le_iff if_False)
  qed
  have e: "floor_log2 n d = (if 2 powi k * D \<le> N then k else k - 1)"
    unfolding floor_log2_def Let_def bn_def [symmetric] bd_def [symmetric] k_def [symmetric] chk
    by (rule refl)
  show ?thesis
  proof (cases "2 powi k * D \<le> N")
    case True
    have "N < 2 powi bn" by (rule nhi)
    also have "2 powi bn = 2 powi (k + 1) * (2::rat) powi (bd - 1)"
      by (simp add: k_def power_int_add [symmetric])
    also have "\<dots> \<le> 2 powi (k + 1) * D" using dlo by (simp add: mult_left_mono)
    finally have "N / D < 2 powi (k + 1)" using D0 by (simp add: field_simps)
    moreover have "2 powi k \<le> N / D" using True D0 by (simp add: field_simps)
    ultimately show ?thesis using True by (simp add: e N_def D_def)
  next
    case False
    then have "N / D < 2 powi k" using D0 by (simp add: field_simps)
    moreover have "2 powi (k - 1) * D \<le> 2 powi (k - 1) * 2 powi bd"
      using dhi by (simp add: mult_left_mono)
    then have "2 powi (k - 1) * D \<le> 2 powi (bn - 1)"
      by (simp add: k_def power_int_add [symmetric])
    then have "2 powi (k - 1) * D \<le> N" using nlo by simp
    then have "2 powi (k - 1) \<le> N / D" using D0 by (simp add: field_simps)
    ultimately show ?thesis using False by (simp add: e N_def D_def)
  qed
qed

text \<open>A finite result of the conversion has the sign asked for, is an integer multiple of
  the unit \<open>2 ^ u\<close> and lies within half a unit of the fraction.\<close>

lemma binary64_within_half_unit:
  assumes "0 < n" "0 < d" "binary64 neg n d = Finite s v"
  shows "s = neg
         \<and> (\<exists>m. v = of_int m * scale 2 (max (floor_log2 n d - 52) (- 1074)))
         \<and> \<bar>v - of_int n / of_int d\<bar> \<le> scale 2 (max (floor_log2 n d - 52) (- 1074)) / 2"
proof -
  define u where "u = max (floor_log2 n d - 52) (- 1074)"
  define m where "m = (if 0 \<le> u then round_half_even n (d * 2 ^ nat u)
                       else round_half_even (n * 2 ^ nat (- u)) d)"
  define S where "S = scale 2 u"
  have S0: "0 < S" by (simp add: S_def scale_def)
  from assms have sv: "s = neg" "v = of_int m * S"
    by (auto simp: binary64_def Let_def u_def [symmetric] m_def [symmetric] S_def split: if_splits)
  have near: "\<bar>of_int m - (of_int n :: rat) / of_int d / S\<bar> \<le> 1 / 2"
  proof (cases "0 \<le> u")
    case True
    then have S: "S = of_int (2 ^ nat u)" by (simp add: S_def scale_def)
    have "\<bar>of_int (round_half_even n (d * 2 ^ nat u)) - (of_int n :: rat) / of_int (d * 2 ^ nat u)\<bar> \<le> 1 / 2"
      using assms(2) by (intro round_half_even_nearest) simp
    then show ?thesis using True by (simp add: m_def S)
  next
    case False
    then have S: "S = 1 / of_int (2 ^ nat (- u))" by (simp add: S_def scale_def)
    have "\<bar>of_int (round_half_even (n * 2 ^ nat (- u)) d) - (of_int (n * 2 ^ nat (- u)) :: rat) / of_int d\<bar> \<le> 1 / 2"
      using assms(2) by (intro round_half_even_nearest)
    then show ?thesis using False by (simp add: m_def S)
  qed
  have "v - of_int n / of_int d = (of_int m - (of_int n :: rat) / of_int d / S) * S"
    using S0 by (simp add: sv field_simps)
  then have "\<bar>v - of_int n / of_int d\<bar> = \<bar>of_int m - (of_int n :: rat) / of_int d / S\<bar> * S"
    using S0 by (simp only: abs_mult abs_of_pos)
  also have "\<dots> \<le> 1 / 2 * S" using near S0 by (intro mult_right_mono) simp_all
  finally have "\<bar>v - of_int n / of_int d\<bar> \<le> S / 2" by simp
  with sv show ?thesis unfolding S_def u_def by blast
qed

subsection \<open>Rating cleaning\<close>

lemma py_strip_ws_id:
  assumes "s \<noteq> []" "\<not> is_space (hd s)" "\<not> is_space (last s)"
  shows "py_strip_ws s = s"
proof -
  have "dropWhile is_space s = s" using assms by (simp add: dropWhile_hd_id)
  moreover have "dropWhile is_space (rev s) = rev s"
    using assms by (simp add: dropWhile_hd_id hd_rev)
  ultimately show ?thesis by (simp add: py_strip_ws_def)
qed

lemma digits_val_foldl:
  "foldl (\<lambda>a c. 10 * a + digit_val c) acc ds = acc * 10 ^ length ds + digits_val ds"
proof (induction ds arbitrary: acc)
  case Nil then show ?case by (simp add: digits_val_def)
next
  case (Cons d ds)
  have "foldl (\<lambda>a c. 10 * a + digit_val c) acc (d # ds)
        = (10 * acc + digit_val d) * 10 ^ length ds + digits_val ds"
    by (simp add: Cons.IH)
  moreover have "digits_val (d # ds) = digit_val d * 10 ^ length ds + digits_val ds"
    by (simp add: digits_val_def Cons.IH [of "digit_val d"])
  ultimately show ?case by (simp add: algebra_simps)
qed

lemma digits_val_append:
  "digits_val (a @ b) = digits_val a * 10 ^ length b + digits_val b"
  by (simp add: digits_val_def digits_val_foldl [of "foldl (\<lambda>a c. 10 * a + digit_val c) 0 a" b, unfolded digits_val_def])

text \<open>The digits of the integer part and of the fraction, read as one number and divided by
  the power of ten of the fraction's length, are the value of the numeral.\<close>

lemma decimal_magnitude:
  "(of_int (digits_val (ip @ fp)) :: rat) / 10 ^ length fp
   = of_int (digits_val ip) + of_int (digits_val fp) / 10 ^ length fp"
  by (simp add: digits_val_append field_simps)

lemma is_alpha_not_other:
  "is_alpha c \<Longrightarrow> \<not> is_space c \<and> \<not> is_digit c \<and> c \<noteq> CHR ''_'' \<and> c \<noteq> CHR ''-''
      \<and> c \<noteq> CHR ''+'' \<and> c \<noteq> CHR ''.''"
  by (auto simp: is_alpha_def is_space_def is_digit_def Let_def)

lemma sign_chars_not_space: "\<not> is_space CHR ''+''" "\<not> is_space CHR ''-''"
  by (simp_all add: is_space_def)

lemma digits_no_underscore: "list_all is_digit ds \<Longrightarrow> CHR ''_'' \<notin> set ds"
  by (auto simp: list_all_iff is_digit_def)

lemma string_to_double_decimal:
  assumes sg: "sg = [] \<or> sg = ''+'' \<or> sg = ''-''"
    and ip: "ip \<noteq> []" "list_all is_digit ip"
    and dp: "dotpart = [] \<and> fp = [] \<or> dotpart = CHR ''.'' # fp \<and> fp \<noteq> [] \<and> list_all is_digit fp"
  shows "string_to_double (sg @ ip @ dotpart)
         = Some (binary64 (sg = ''-'') (digits_val (ip @ fp)) (10 ^ length fp))"
proof -
  have hd_ip: "is_digit (hd ip)" using ip by (cases ip) auto
  have ts: "take_sign (sg @ ip @ dotpart) = (sg = ''-'', ip @ dotpart)"
    using sg ip hd_ip by (cases ip) (auto simp: take_sign_def dest: is_digit_not_sign)
  from dp show ?thesis
  proof
    assume e: "dotpart = [] \<and> fp = []"
    have tw: "takeWhile is_digit ip = ip" "dropWhile is_digit ip = []"
      using ip by (simp_all add: list_all_iff)
    have ts': "take_sign (sg @ ip) = (sg = ''-'', ip)" using ts e by simp
    show ?thesis
      using ip by (simp add: e string_to_double_def ts' tw parse_exponent_def)
  next
    assume f: "dotpart = CHR ''.'' # fp \<and> fp \<noteq> [] \<and> list_all is_digit fp"
    have tw: "takeWhile is_digit (ip @ CHR ''.'' # fp) = ip"
      "dropWhile is_digit (ip @ CHR ''.'' # fp) = CHR ''.'' # fp"
      using ip by (simp_all add: list_all_iff takeWhile_append2 dropWhile_append2 is_digit_def)
    have tw2: "takeWhile is_digit fp = fp" "dropWhile is_digit fp = []"
      using f by (simp_all add: list_all_iff)
    have ts': "take_sign (sg @ ip @ CHR ''.'' # fp) = (sg = ''-'', ip @ CHR ''.'' # fp)"
      using ts f by simp
    have "string_to_double (sg @ ip @ CHR ''.'' # fp)
          = Some (binary64 (sg = ''-'') (digits_val (ip @ fp)) (10 ^ length fp))"
      using ip f by (simp add: string_to_double_def ts' tw tw2 parse_exponent_def)
    then show ?thesis using f by simp
  qed
qed

lemma py_float_decimal:
  assumes sg: "sg = [] \<or> sg = ''+'' \<or> sg = ''-''"
    and ip: "ip \<noteq> []" "list_all is_digit ip"
    and dp: "dotpart = [] \<and> fp = [] \<or> dotpart = CHR ''.'' # fp \<and> fp \<noteq> [] \<and> list_all is_digit fp"
  shows "py_float (sg @ ip @ dotpart)
         = Inr (binary64 (sg = ''-'') (digits_val (ip @ fp)) (10 ^ length fp))"
proof -
  let ?s = "sg @ ip @ dotpart"
  have ne: "?s \<noteq> []" using ip by simp
  have hd_ip: "is_digit (hd ip)" using ip by (cases ip) auto
  have "hd ?s = hd sg \<and> sg \<noteq> [] \<or> hd ?s = hd ip" using ip by (cases sg) auto
  then have h: "\<not> is_space (hd ?s)"
    using sg hd_ip by (auto simp: is_digit_not_space sign_chars_not_space)
  have "is_digit (last ?s)"
  proof -
    have "is_digit (last ip)" using ip by (simp add: list_all_iff)
    moreover have "fp \<noteq> [] \<Longrightarrow> list_all is_digit fp \<Longrightarrow> is_digit (last fp)"
      by (simp add: list_all_iff)
    ultimately show ?thesis using dp ip by auto
  qed
  then have l: "\<not> is_space (last ?s)" by (rule is_digit_not_space)
  have strip: "py_strip_ws ?s = ?s" using ne h l by (rule py_strip_ws_id)
  have u1: "CHR ''_'' \<notin> set sg" using sg by auto
  have u2: "CHR ''_'' \<notin> set ip" using ip by (rule_tac digits_no_underscore) simp
  have u3: "CHR ''_'' \<notin> set dotpart"
  proof (cases "dotpart = []")
    case True then show ?thesis by simp
  next
    case False
    with dp have "dotpart = CHR ''.'' # fp" "list_all is_digit fp" by auto
    then show ?thesis using digits_no_underscore [of fp] by simp
  qed
  have "CHR ''_'' \<notin> set ?s" using u1 u2 u3 by simp
  then have und: "without_underscores ?s = Some ?s" by (simp add: without_underscores_def)
  show ?thesis
    by (simp add: py_float_def strip und string_to_double_decimal [OF sg ip dp])
qed

text \<open>For a text of letters only, \<open>float\<close> is decided by the spellings of the special
  values.\<close>

lemma py_float_letters:
  assumes "t \<noteq> []" "list_all is_alpha t"
  shows "py_float t = (case parse_inf_or_nan t of None \<Rightarrow> Inl ValueError | Some f \<Rightarrow> Inr f)"
proof -
  obtain c cs where t: "t = c # cs" using assms(1) by (cases t) auto
  have c: "is_alpha c" using assms(2) t by simp
  have "is_alpha (last t)" using assms(1,2) by (simp add: list_all_iff)
  then have strip: "py_strip_ws t = t"
    using assms(1) c t by (intro py_strip_ws_id) (auto dest: is_alpha_not_other)
  have "CHR ''_'' \<notin> set t" using assms(2) by (auto simp: list_all_iff dest: is_alpha_not_other)
  then have und: "without_underscores t = Some t" by (simp add: without_underscores_def)
  have ts: "take_sign t = (False, t)" using c t by (auto simp: take_sign_def dest: is_alpha_not_other)
  have tw: "takeWhile is_digit t = []" "dropWhile is_digit t = t"
    using c t by (auto dest: is_alpha_not_other)
  have r1: "(case t of [] \<Rightarrow> ([], []) | c # u \<Rightarrow> if c = CHR ''.'' then (takeWhile is_digit u, dropWhile is_digit u) else ([], t)) = ([], t)"
    using c t by (auto dest: is_alpha_not_other)
  have "string_to_double t = parse_inf_or_nan t"
    by (simp add: string_to_double_def ts tw r1)
  then show ?thesis by (simp add: py_float_def strip und)
qed

lemma parse_inf_or_nan_letters:
  assumes "t \<noteq> []" "list_all is_alpha t"
  shows "parse_inf_or_nan t =
           (if map lower t = ''inf'' \<or> map lower t = ''infinity'' then Some (Infinity False)
            else if map lower t = ''nan'' then Some NaN else None)"
proof -
  obtain c cs where t: "t = c # cs" using assms(1) by (cases t) auto
  have c: "is_alpha c" using assms(2) t by simp
  have ts: "take_sign t = (False, t)" using c t by (auto simp: take_sign_def dest: is_alpha_not_other)
  show ?thesis by (simp add: parse_inf_or_nan_def ts)
qed

lemma clean_rating_nonempty:
  assumes "t \<noteq> []"
  shows "clean_rating (Some t) = (case py_float t of Inl e \<Rightarrow> Inr PNone | Inr f \<Rightarrow> Inr (PFloat f))"
proof (cases "py_float t")
  case (Inl e)
  then have "e = ValueError" by (rule py_float_only_ValueError)
  with Inl assms show ?thesis by (simp add: clean_rating_def)
next
  case (Inr f)
  with assms show ?thesis by (simp add: clean_rating_def)
qed

text \<open>The conversion at some values: a value that is a binary64 number is kept, others are
  rounded, the sign of zero is kept, and a value beyond the range gives an infinity.\<close>

lemma binary64_examples:
  "binary64 True 45 10 = Finite True (9 / 2)
   \<and> binary64 False 1 10 = Finite False (3602879701896397 / 36028797018963968)"
  by code_simp

lemma clean_rating_rounds:
  "clean_rating (Some ''4.5'') = Inr (PFloat (Finite False (9 / 2)))
   \<and> clean_rating (Some ''0.1'')
       = Inr (PFloat (Finite False (3602879701896397 / 36028797018963968)))
   \<and> clean_rating (Some ''9007199254740993'') = Inr (PFloat (Finite False 9007199254740992))
   \<and> clean_rating (Some ''-0'') = Inr (PFloat (Finite True 0))"
  by code_simp

lemma clean_rating_overflow:
  "clean_rating (Some ''1e309'') = Inr (PFloat (Infinity False))"
  by code_simp

text \<open>What \<open>float\<close> reads beyond plain decimal numerals, and what it rejects.\<close>

lemma clean_rating_other_accepted:
  "clean_rating (Some ''nan'') = Inr (PFloat NaN)
   \<and> clean_rating (Some ''Infinity'') = Inr (PFloat (Infinity False))
   \<and> clean_rating (Some ''1e3'') = Inr (PFloat (Finite False 1000))
   \<and> clean_rating (Some ''1_0.5'') = Inr (PFloat (Finite False (21 / 2)))
   \<and> clean_rating (Some '' 4.5 '') = Inr (PFloat (Finite False (9 / 2)))
   \<and> clean_rating (Some [CHR 0xA0, CHR ''4'', CHR ''.'', CHR ''5''])
       = Inr (PFloat (Finite False (9 / 2)))"
  by code_simp

lemma clean_rating_malformed:
  "clean_rating (Some ''1.2.3'') = Inr PNone \<and> clean_rating (Some ''4,5'') = Inr PNone
   \<and> clean_rating (Some ''4.5 stars'') = Inr PNone
   \<and> clean_rating (Some [CHR 0x1C, CHR ''4'', CHR ''.'', CHR ''5'']) = Inr PNone"
  by code_simp

lemma py_float_stars: "py_float ''4.5 stars'' = Inl ValueError"
  by code_simp

text \<open>The guard \<open>if self.rating:\<close> is false for the empty string: \<open>float\<close> is not called
  and the field keeps the empty string, although the docstring of \<open>clean_rating\<close> says that
  a rating that cannot be converted is set to \<open>None\<close>.\<close>

lemma clean_rating_keeps_empty_string: "clean_rating (Some []) = Inr (PStr [])"
  by (simp add: clean_rating_def)

text \<open>
  Claim C7, as the code has it by design. A decimal numeral is an optional sign, a non-empty
  run of digits and optionally a point with a non-empty run of digits; its magnitude is the
  digits of both runs read as one number, divided by the power of ten of the fraction's
  length, which is the integer part plus the fraction. For such a text the cleaned rating
  is a float: that magnitude converted to binary64 (to nearest, ties to even, an infinity
  beyond the range), with the sign of the numeral. For any other non-empty text the rating
  is \<open>None\<close> exactly when \<open>float\<close> rejects the text, and the float that \<open>float\<close> reads
  otherwise. In particular, a non-empty text of letters only gives \<open>None\<close>, unless it spells
  \<open>inf\<close>, \<open>infinity\<close> or \<open>nan\<close> in any letter case, which give an infinity or
  not-a-number. The empty text is not part of this statement.
\<close>

theorem clean_rating_float_or_absent:
  "((sg = [] \<or> sg = ''+'' \<or> sg = ''-'') \<and> ip \<noteq> [] \<and> list_all is_digit ip
      \<and> (dotpart = [] \<and> fp = [] \<or> dotpart = CHR ''.'' # fp \<and> fp \<noteq> [] \<and> list_all is_digit fp)
    \<longrightarrow> clean_rating (Some (sg @ ip @ dotpart))
          = Inr (PFloat (binary64 (sg = ''-'') (digits_val (ip @ fp)) (10 ^ length fp)))
        \<and> (of_int (digits_val (ip @ fp)) :: rat) / 10 ^ length fp
          = of_int (digits_val ip) + of_int (digits_val fp) / 10 ^ length fp)
   \<and> (t \<noteq> []
      \<longrightarrow> clean_rating (Some t)
          = (case py_float t of Inl e \<Rightarrow> Inr PNone | Inr f \<Rightarrow> Inr (PFloat f)))
   \<and> (u \<noteq> [] \<and> list_all is_alpha u \<and> map lower u \<noteq> ''inf'' \<and> map lower u \<noteq> ''infinity''
        \<and> map lower u \<noteq> ''nan''
      \<longrightarrow> clean_rating (Some u) = Inr PNone)
   \<and> (list_all is_alpha w \<and> (map lower w = ''inf'' \<or> map lower w = ''infinity'')
      \<longrightarrow> clean_rating (Some w) = Inr (PFloat (Infinity False)))
   \<and> (list_all is_alpha z \<and> map lower z = ''nan''
      \<longrightarrow> clean_rating (Some z) = Inr (PFloat NaN))"
proof (intro conjI impI)
  assume a: "(sg = [] \<or> sg = ''+'' \<or> sg = ''-'') \<and> ip \<noteq> [] \<and> list_all is_digit ip
      \<and> (dotpart = [] \<and> fp = [] \<or> dotpart = CHR ''.'' # fp \<and> fp \<noteq> [] \<and> list_all is_digit fp)"
  then have "py_float (sg @ ip @ dotpart)
         = Inr (binary64 (sg = ''-'') (digits_val (ip @ fp)) (10 ^ length fp))"
    by (intro py_float_decimal) auto
  moreover have "sg @ ip @ dotpart \<noteq> []" using a by simp
  ultimately show "clean_rating (Some (sg @ ip @ dotpart))
          = Inr (PFloat (binary64 (sg = ''-'') (digits_val (ip @ fp)) (10 ^ length fp)))"
    by (simp add: clean_rating_def)
next
  show "(of_int (digits_val (ip @ fp)) :: rat) / 10 ^ length fp
          = of_int (digits_val ip) + of_int (digits_val fp) / 10 ^ length fp"
    by (rule decimal_magnitude)
next
  assume "t \<noteq> []"
  then show "clean_rating (Some t)
          = (case py_float t of Inl e \<Rightarrow> Inr PNone | Inr f \<Rightarrow> Inr (PFloat f))"
    by (rule clean_rating_nonempty)
next
  assume a: "u \<noteq> [] \<and> list_all is_alpha u \<and> map lower u \<noteq> ''inf'' \<and> map lower u \<noteq> ''infinity''
        \<and> map lower u \<noteq> ''nan''"
  then have "py_float u = Inl ValueError"
    by (simp add: py_float_letters parse_inf_or_nan_letters)
  with a show "clean_rating (Some u) = Inr PNone" by (simp add: clean_rating_nonempty)
next
  assume a: "list_all is_alpha w \<and> (map lower w = ''inf'' \<or> map lower w = ''infinity'')"
  then have ne: "w \<noteq> []" by auto
  with a have "py_float w = Inr (Infinity False)"
    by (simp add: py_float_letters parse_inf_or_nan_letters)
  with ne show "clean_rating (Some w) = Inr (PFloat (Infinity False))"
    by (simp add: clean_rating_nonempty)
next
  assume a: "list_all is_alpha z \<and> map lower z = ''nan''"
  then have ne: "z \<noteq> []" by auto
  with a have "py_float z = Inr NaN"
    by (simp add: py_float_letters parse_inf_or_nan_letters)
  with ne show "clean_rating (Some z) = Inr (PFloat NaN)"
    by (simp add: clean_rating_nonempty)
qed

text \<open>The theorem at \<open>-4.5\<close>, at \<open>4.5 stars\<close>, and at the words \<open>good\<close>, \<open>Inf\<close> and
  \<open>NaN\<close>.\<close>

theorem clean_rating_float_or_absent_witness:
  "''-4.5'' = ''-'' @ ''4'' @ ''.5'' \<and> list_all is_digit ''4'' \<and> list_all is_digit ''5''
   \<and> clean_rating (Some ''-4.5'') = Inr (PFloat (Finite True (9 / 2)))
   \<and> clean_rating (Some ''4.5 stars'') = Inr PNone
   \<and> list_all is_alpha ''good'' \<and> map lower ''good'' = ''good''
   \<and> clean_rating (Some ''good'') = Inr PNone
   \<and> list_all is_alpha ''Inf'' \<and> map lower ''Inf'' = ''inf''
   \<and> clean_rating (Some ''Inf'') = Inr (PFloat (Infinity False))
   \<and> list_all is_alpha ''NaN'' \<and> map lower ''NaN'' = ''nan''
   \<and> clean_rating (Some ''NaN'') = Inr (PFloat NaN)"
  using clean_rating_float_or_absent
    [of "''-''" "''4''" "''.5''" "''5''" "''4.5 stars''" "''good''" "''Inf''" "''NaN''"]
    binary64_examples py_float_stars
  by (simp add: is_digit_def is_alpha_def lower_def digits_val_def digit_val_def)

text \<open>
  Claim C7 as stated says that every text that is not a decimal numeral, alphabetic text
  included, gives an absent rating. The word \<open>nan\<close> is no decimal numeral, and \<open>float\<close>
  reads it: the rating is not-a-number, not \<open>None\<close>.
\<close>

theorem clean_rating_nan_counterexample:
  "clean_rating (Some ''nan'') = Inr (PFloat NaN) \<and> clean_rating (Some ''nan'') \<noteq> Inr PNone"
  by code_simp

subsection \<open>Batch partitioning of references that do not repeat\<close>

text \<open>The batches of the specification: they concatenate to the list, none is empty or
  longer than the batch size, and all but the last are full.\<close>

lemma spec_batches_Nil: "spec_batches n [] = []"
  by (subst spec_batches.simps) simp

lemma spec_batches_short:
  assumes "xs \<noteq> []" "length xs \<le> n"
  shows "spec_batches n xs = [xs]"
proof -
  have "0 < n" using assms by (cases xs) auto
  with assms show ?thesis by (subst spec_batches.simps) (simp add: spec_batches_Nil)
qed

lemma spec_batches_full:
  "0 < n \<Longrightarrow> length b = n \<Longrightarrow> spec_batches n (b @ rest) = b # spec_batches n rest"
  by (subst spec_batches.simps) auto

lemma concat_spec_batches: "0 < n \<Longrightarrow> concat (spec_batches n xs) = xs"
proof (induction n xs rule: spec_batches.induct)
  case (1 n xs)
  show ?case
  proof (cases "xs = []")
    case True then show ?thesis by (simp add: spec_batches_Nil)
  next
    case False
    with 1 have "concat (spec_batches n (drop n xs)) = drop n xs" by simp
    with False "1.prems" show ?thesis by (subst spec_batches.simps) simp
  qed
qed

lemma spec_batches_sizes:
  "0 < n \<Longrightarrow> b \<in> set (spec_batches n xs) \<Longrightarrow> b \<noteq> [] \<and> length b \<le> n"
proof (induction n xs rule: spec_batches.induct)
  case (1 n xs)
  show ?case
  proof (cases "xs = []")
    case True with "1.prems" show ?thesis by (simp add: spec_batches_Nil)
  next
    case False
    have "spec_batches n xs = take n xs # spec_batches n (drop n xs)"
      using False "1.prems" by (subst spec_batches.simps) simp
    with "1.prems" have "b = take n xs \<or> b \<in> set (spec_batches n (drop n xs))"
      by auto
    with 1 False show ?thesis by auto
  qed
qed

lemma spec_batches_all_but_last_full:
  "0 < n \<Longrightarrow> b \<in> set (butlast (spec_batches n xs)) \<Longrightarrow> length b = n"
proof (induction n xs rule: spec_batches.induct)
  case (1 n xs)
  show ?case
  proof (cases "xs = []")
    case True with "1.prems" show ?thesis by (simp add: spec_batches_Nil)
  next
    case False
    have eq: "spec_batches n xs = take n xs # spec_batches n (drop n xs)"
      using False "1.prems" by (subst spec_batches.simps) simp
    show ?thesis
    proof (cases "spec_batches n (drop n xs) = []")
      case True with "1.prems" eq show ?thesis by simp
    next
      case ne: False
      then have "drop n xs \<noteq> []" by (auto simp: spec_batches_Nil)
      then have len: "length (take n xs) = n" by simp
      from "1.prems" eq ne have "b = take n xs \<or> b \<in> set (butlast (spec_batches n (drop n xs)))"
        by auto
      with 1 False len show ?thesis by auto
    qed
  qed
qed

text \<open>When no reference repeats, neither by identity nor by value, \<open>list.index\<close> returns
  the position of the loop and only the last reference is identical to the last one.\<close>

lemma py_index_first:
  "k < length xs \<Longrightarrow> eq (xs ! k) x \<Longrightarrow> \<forall>j<k. \<not> eq (xs ! j) x \<Longrightarrow> py_index eq xs x = Inr k"
proof (induction xs arbitrary: k)
  case Nil then show ?case by simp
next
  case (Cons y ys)
  show ?case
  proof (cases k)
    case 0 with Cons.prems show ?thesis by simp
  next
    case (Suc k')
    with Cons.prems have "\<not> eq y x" by auto
    moreover from Suc Cons.prems have "py_index eq ys x = Inr k'"
      by (intro Cons.IH) auto
    ultimately show ?thesis using Suc by simp
  qed
qed

lemma py_index_distinct:
  assumes "distinct (map obj_id xs)" "distinct (map obj_val xs)" "k < length xs"
  shows "py_index py_eq xs (xs ! k) = Inr k"
proof (rule py_index_first)
  show "k < length xs" by fact
  show "py_eq (xs ! k) (xs ! k)" by (simp add: py_eq_def)
  show "\<forall>j<k. \<not> py_eq (xs ! j) (xs ! k)"
  proof (intro allI impI)
    fix j assume j: "j < k"
    with assms(3) have jl: "j < length xs" by simp
    have "map obj_id xs ! j \<noteq> map obj_id xs ! k"
      using assms(1,3) j jl by (simp add: nth_eq_iff_index_eq del: nth_map)
    moreover have "map obj_val xs ! j \<noteq> map obj_val xs ! k"
      using assms(2,3) j jl by (simp add: nth_eq_iff_index_eq del: nth_map)
    ultimately show "\<not> py_eq (xs ! j) (xs ! k)" using jl assms(3) by (simp add: py_eq_def)
  qed
qed

lemma py_is_last_distinct:
  assumes "distinct (map obj_id xs)" "k < length xs"
  shows "py_is (xs ! k) (last xs) \<longleftrightarrow> Suc k = length xs"
proof -
  have ne: "xs \<noteq> []" using assms(2) by auto
  then have l: "last xs = xs ! (length xs - 1)" by (simp add: last_conv_nth)
  have "map obj_id xs ! k = map obj_id xs ! (length xs - 1) \<longleftrightarrow> k = length xs - 1"
    using assms ne by (simp add: nth_eq_iff_index_eq del: nth_map)
  then show ?thesis using assms(2) ne by (auto simp: py_is_def l)
qed

lemma split_profiles_spec_batches:
  assumes "distinct (map obj_id xs)" "distinct (map obj_val xs)"
    and "xs = front @ rest" and "length sub_list = length front mod CALL_RATE"
    and "rest = [] \<longrightarrow> sub_list = []"
  shows "split_profiles xs rest arrays sub_list = Inr (arrays @ spec_batches CALL_RATE (sub_list @ rest))"
  using assms(3-5)
proof (induction rest arbitrary: front sub_list arrays)
  case Nil
  then show ?case by (simp add: spec_batches_Nil)
next
  case (Cons p rest)
  let ?k = "length front"
  have k: "?k < length xs" and p: "xs ! ?k = p" using Cons.prems(1) by simp_all
  have idx: "py_index py_eq xs p = Inr ?k"
    using py_index_distinct [OF assms(1,2) k] p by simp
  have lst: "py_is p (last xs) \<longleftrightarrow> rest = []"
    using py_is_last_distinct [OF assms(1) k] p Cons.prems(1) by auto
  have sub_lt: "length sub_list < CALL_RATE" using Cons.prems(2) by (simp add: CALL_RATE_def)
  show ?case
  proof (cases "rest = []")
    case True
    have "sub_list @ [p] \<noteq> []" "length (sub_list @ [p]) \<le> CALL_RATE" using sub_lt by simp_all
    then have "spec_batches CALL_RATE (sub_list @ [p]) = [sub_list @ [p]]"
      by (rule spec_batches_short)
    with True idx lst show ?thesis by simp
  next
    case False
    show ?thesis
    proof (cases "(?k + 1) mod CALL_RATE = 0")
      case True
      have "length (sub_list @ [p]) = CALL_RATE"
        using True Cons.prems(2) by (simp add: CALL_RATE_def mod_Suc split: if_splits)
      then have sb: "spec_batches CALL_RATE ((sub_list @ [p]) @ rest)
                 = (sub_list @ [p]) # spec_batches CALL_RATE rest"
        by (intro spec_batches_full) (simp_all add: CALL_RATE_def)
      have "split_profiles xs rest (arrays @ [sub_list @ [p]]) []
            = Inr ((arrays @ [sub_list @ [p]]) @ spec_batches CALL_RATE ([] @ rest))"
        using Cons.prems(1) True False by (intro Cons.IH [of "front @ [p]"]) simp_all
      with idx True sb show ?thesis by simp
    next
      case nocut: False
      have "split_profiles xs rest arrays (sub_list @ [p])
            = Inr (arrays @ spec_batches CALL_RATE ((sub_list @ [p]) @ rest))"
        using Cons.prems(1,2) nocut False
        by (intro Cons.IH [of "front @ [p]"]) (simp_all add: mod_Suc CALL_RATE_def split: if_splits)
      with idx nocut lst False show ?thesis by simp
    qed
  qed
qed

text \<open>For such a list the code returns the batches of the specification (and the single
  empty batch for the empty list).\<close>

lemma create_profiles_array_distinct:
  assumes "distinct (map obj_id xs)" "distinct (map obj_val xs)"
  shows "create_profiles_array xs = Inr (if xs = [] then [[]] else spec_batches CALL_RATE xs)"
proof (cases "length xs \<le> CALL_RATE")
  case True
  then show ?thesis by (simp add: create_profiles_array_def spec_batches_short)
next
  case False
  then have ne: "xs \<noteq> []" by auto
  have "split_profiles xs xs [] [] = Inr ([] @ spec_batches CALL_RATE ([] @ xs))"
    using assms ne by (intro split_profiles_spec_batches [of xs "[]"]) simp_all
  with False ne show ?thesis by (simp add: create_profiles_array_def)
qed

text \<open>The example of claim C5: 250 references give batches of 120, 120 and 10.\<close>

lemma spec_batches_250:
  "length xs = 250 \<Longrightarrow> map length (spec_batches CALL_RATE xs) = [120, 120, 10]"
proof -
  assume l: "length xs = 250"
  have a: "spec_batches 120 xs = take 120 xs # spec_batches 120 (drop 120 xs)"
    using l by (subst spec_batches.simps) auto
  have b: "spec_batches 120 (drop 120 xs) = take 120 (drop 120 xs) # spec_batches 120 (drop 240 xs)"
    using l by (subst spec_batches.simps) auto
  have c: "spec_batches 120 (drop 240 xs) = [drop 240 xs]"
    using l by (intro spec_batches_short) auto
  show ?thesis using l by (simp add: CALL_RATE_def a b c)
qed

end
